theory Spec2Isabelle
  imports Complex_Main "HOL-Library.Multiset"
begin

section \<open>Data model\<close>

text \<open>
  The query execution core of TrivialDB (\<^verbatim>\<open>dbms.cpp\<close>): row iteration over one, two
  and many tables, the join planner, and the SELECT, aggregate and INSERT drivers.
  The parser, the expression evaluator, the type casts, the table manager and the index
  manager are collaborators whose code is not part of the source; they enter the model
  as the values and functions the core reads from them.
\<close>

datatype operator_type =
    OPERATOR_NONE | OPERATOR_AND | OPERATOR_OR | OPERATOR_EQ | OPERATOR_NE
  | OPERATOR_LT | OPERATOR_LE | OPERATOR_GT | OPERATOR_GE
  | OPERATOR_ADD | OPERATOR_MINUS | OPERATOR_MUL | OPERATOR_DIV
  | OPERATOR_MIN | OPERATOR_MAX | OPERATOR_SUM | OPERATOR_AVG | OPERATOR_COUNT

datatype term_type_t =
    TERM_NONE | TERM_COLUMN_REF | TERM_INT | TERM_FLOAT | TERM_STRING
  | TERM_BOOL | TERM_DATE | TERM_NULL

record column_ref_t =
  cr_table :: string
  cr_column :: string

text \<open>
  \<^verbatim>\<open>expr_node_t\<close>: the fields the core reads. A pointer that may be null is an option.
\<close>

datatype expr_node_t =
  ExprNode (op: operator_type) (term_type: term_type_t)
    (left: "expr_node_t option") (right: "expr_node_t option")
    (column_ref: "column_ref_t option")

text \<open>
  \<^verbatim>\<open>expression\<close>: the tagged value an evaluation returns. The C++ value is a union read
  through \<^verbatim>\<open>val_i\<close>, \<^verbatim>\<open>val_f\<close>, ... whatever the tag says, so it is a record of all
  readings. A 32-bit \<^verbatim>\<open>int\<close> is an \<open>int\<close> in \<open>[-2^31, 2^31)\<close>; a finite \<^verbatim>\<open>float\<close> is the
  real number it denotes.
\<close>

record expression =
  ex_type :: term_type_t
  val_i :: int
  val_f :: real
  val_b :: bool
  val_s :: string

text \<open>
  A stored record: its row id (the first four bytes) and its column cells; a NULL cell
  is \<open>None\<close>. The type \<open>'v\<close> is the byte image of a column value.
\<close>

record 'v record_manager =
  rid :: int
  cells :: "'v option list"

text \<open>
  An index, as the core uses it: \<^verbatim>\<open>get_iterator_lower_bound(key)\<close> followed by
  \<^verbatim>\<open>open_record_from_index_lower_bound\<close> on every locator up to \<^verbatim>\<open>is_end()\<close> yields a
  sequence of records. The key is a pointer, \<open>None\<close> when it is null.
\<close>

type_synonym 'v index_manager = "'v option \<Rightarrow> 'v record_manager list"

text \<open>
  A table manager, through its interface: its name, \<^verbatim>\<open>lookup_column\<close> (negative when
  the column does not exist), \<^verbatim>\<open>get_index\<close> (null when the column has no index),
  \<^verbatim>\<open>get_column_type\<close>, \<^verbatim>\<open>get_column_num\<close>, and the records that
  \<^verbatim>\<open>get_record_iterator_lower_bound(0)\<close> visits, in physical order.
\<close>

record 'v table_manager =
  get_table_name :: string
  lookup_column :: "string \<Rightarrow> int"
  get_index :: "int \<Rightarrow> 'v index_manager option"
  get_column_type :: "int \<Rightarrow> int"
  get_column_num :: int
  records :: "'v record_manager list"

text \<open>
  The row cache binds each table to its currently positioned record
  (\<^verbatim>\<open>cache_record\<close>); expression evaluation reads it.
\<close>

type_synonym 'v row_cache = "string \<Rightarrow> 'v record_manager option"

text \<open>
  Modelled from the spec: \<^verbatim>\<open>table_manager::get_cached_column\<close> is not in the source.
  The spec gives \<^verbatim>\<open>get_cached_column(col_id) \<rightarrow> bytes?\<close>: the cell of the cached
  record, null when the cell is NULL.
\<close>

definition get_cached_column :: "'v row_cache \<Rightarrow> 'v table_manager \<Rightarrow> int \<Rightarrow> 'v option" where
  "get_cached_column cache tb cid =
     (case cache (get_table_name tb) of
        None \<Rightarrow> None
      | Some rm \<Rightarrow> if 0 \<le> cid \<and> nat cid < length (cells rm) then cells rm ! nat cid else None)"

text \<open>
  The expression evaluator and the boolean cast, both of which may throw a message
  (\<open>Inl\<close>). The evaluator reads the row cache and receives a pointer to a node, which
  the core does not always check. \<^verbatim>\<open>is_aggregate\<close> and \<^verbatim>\<open>to_string\<close> belong to the
  same collaborator.
\<close>

record 'v evaluator =
  eval :: "'v row_cache \<Rightarrow> expr_node_t option \<Rightarrow> string + expression"
  expr_to_bool :: "expression \<Rightarrow> string + bool"
  is_aggregate :: "expr_node_t \<Rightarrow> bool"
  to_string :: "expr_node_t \<Rightarrow> string"

text \<open>\<^verbatim>\<open>typecast::expr_to_bool(expression::eval(cond))\<close> inside a \<^verbatim>\<open>try\<close>.\<close>

definition eval_cond :: "'v evaluator \<Rightarrow> 'v row_cache \<Rightarrow> expr_node_t option \<Rightarrow> string + bool" where
  "eval_cond ev cache cond =
     (case eval ev cache cond of Inl msg \<Rightarrow> Inl msg | Inr v \<Rightarrow> expr_to_bool ev v)"

text \<open>
  A diagnostic line (on \<^verbatim>\<open>stdout\<close> or \<^verbatim>\<open>stderr\<close>): a text, or one of the two
  summaries with their numbers.
\<close>

datatype diag = Text string | RowsSelected int | RowsInserted int int

text \<open>
  What an iteration threads through: the row cache, the diagnostics printed so far, and
  the state \<open>'s\<close> the consumer owns (its captured variables and its output).
\<close>

record ('v, 's) iter_state =
  cache :: "'v row_cache"
  msgs :: "diag list"
  cst :: 's

definition cache_record :: "'v table_manager \<Rightarrow> 'v record_manager \<Rightarrow> ('v, 's) iter_state \<Rightarrow> ('v, 's) iter_state" where
  "cache_record tb rm s = s\<lparr>cache := (cache s)(get_table_name tb \<mapsto> rm)\<rparr>"

definition put_msg :: "string \<Rightarrow> ('v, 's) iter_state \<Rightarrow> ('v, 's) iter_state" where
  "put_msg msg s = s\<lparr>msgs := msgs s @ [Text msg]\<rparr>"

text \<open>
  The consumer of \<^verbatim>\<open>iterate\<close>: it receives the tables, the records (a null pointer is
  \<open>None\<close>) and the row ids, and returns whether to continue.
\<close>

type_synonym ('v, 's) callback =
  "'v table_manager list \<Rightarrow> 'v record_manager option list \<Rightarrow> int list
     \<Rightarrow> ('v, 's) iter_state \<Rightarrow> bool \<times> ('v, 's) iter_state"

type_synonym ('v, 's) callback1 =
  "'v table_manager \<Rightarrow> 'v record_manager \<Rightarrow> int
     \<Rightarrow> ('v, 's) iter_state \<Rightarrow> bool \<times> ('v, 's) iter_state"

section \<open>Single-table iterator\<close>

text \<open>
  \<^verbatim>\<open>dbms::iterate_one_table\<close>: the loop over the record iterator. A thrown
  evaluation message is printed and ends the scan; a false predicate skips the record;
  a consumer that returns false ends the scan.
\<close>

fun iterate_one_table_loop ::
  "'v evaluator \<Rightarrow> 'v table_manager \<Rightarrow> expr_node_t option \<Rightarrow> ('v, 's) callback1
     \<Rightarrow> 'v record_manager list \<Rightarrow> ('v, 's) iter_state \<Rightarrow> ('v, 's) iter_state" where
  "iterate_one_table_loop ev tb cond callback [] s = s"
| "iterate_one_table_loop ev tb cond callback (rm # it) s =
     (let s1 = cache_record tb rm s;
          pass = (case cond of None \<Rightarrow> Inr True | Some c \<Rightarrow> eval_cond ev (cache s1) cond)
      in case pass of
           Inl msg \<Rightarrow> put_msg msg s1
         | Inr result \<Rightarrow>
             if \<not> result then iterate_one_table_loop ev tb cond callback it s1
             else (case callback tb rm (rid rm) s1 of
                     (ret, s2) \<Rightarrow>
                       if \<not> ret then s2
                       else iterate_one_table_loop ev tb cond callback it s2))"

definition iterate_one_table ::
  "'v evaluator \<Rightarrow> 'v table_manager \<Rightarrow> expr_node_t option \<Rightarrow> ('v, 's) callback1
     \<Rightarrow> ('v, 's) iter_state \<Rightarrow> ('v, 's) iter_state" where
  "iterate_one_table ev tb cond callback s =
     iterate_one_table_loop ev tb cond callback (records tb) s"


section \<open>Two-table index join\<close>

text \<open>
  How a call can end without a result: a null pointer is dereferenced or an
  \<^verbatim>\<open>assert\<close> fails (the process stops), or the many-table planner gives up with a
  diagnostic (\<^verbatim>\<open>Table not found\<close>, \<^verbatim>\<open>Column not found\<close>).
\<close>

datatype error = NullPointerDereference | AssertionFailed | TableNotFound | ColumnNotFound

text \<open>
  \<^verbatim>\<open>dbms::get_join_cond\<close>. The \<^verbatim>\<open>&&\<close> does not read \<^verbatim>\<open>cond->right\<close> when the left
  operand is not a column reference.
\<close>

definition get_join_cond :: "expr_node_t option \<Rightarrow> error + expr_node_t option" where
  "get_join_cond cond =
     (case cond of
        None \<Rightarrow> Inr None
      | Some c \<Rightarrow>
          (case left c of
             None \<Rightarrow> Inl NullPointerDereference
           | Some l \<Rightarrow>
               if term_type l \<noteq> TERM_COLUMN_REF then Inr None
               else (case right c of
                       None \<Rightarrow> Inl NullPointerDereference
                     | Some r \<Rightarrow>
                         if term_type r = TERM_COLUMN_REF then Inr (Some c) else Inr None)))"

text \<open>
  The inner loop of \<^verbatim>\<open>iterate_two_tables_with_joint_cond_equal\<close> over the probe
  index. The flag of the result says that the function has returned (the \<^verbatim>\<open>catch\<close>
  branch); both \<^verbatim>\<open>break\<close>s only leave this loop.
\<close>

fun two_tables_probe_loop ::
  "'v evaluator \<Rightarrow> 'v table_manager \<Rightarrow> 'v table_manager \<Rightarrow> expr_node_t option \<Rightarrow> ('v, 's) callback
     \<Rightarrow> 'v record_manager \<Rightarrow> 'v record_manager list \<Rightarrow> ('v, 's) iter_state
     \<Rightarrow> bool \<times> ('v, 's) iter_state" where
  "two_tables_probe_loop ev tb1 tb2 cond callback tb1_rm [] s = (False, s)"
| "two_tables_probe_loop ev tb1 tb2 cond callback tb1_rm (tb2_rm # tb2_it) s =
     (let s1 = cache_record tb2 tb2_rm s
      in case eval_cond ev (cache s1) cond of
           Inl msg \<Rightarrow> (True, put_msg msg s1)
         | Inr result \<Rightarrow>
             if \<not> result then (False, s1)
             else (case callback [tb1, tb2] [Some tb1_rm, Some tb2_rm] [rid tb1_rm, rid tb2_rm] s1 of
                     (ret, s2) \<Rightarrow>
                       if \<not> ret then (False, s2)
                       else two_tables_probe_loop ev tb1 tb2 cond callback tb1_rm tb2_it s2))"

text \<open>The outer loop over the driver table \<^verbatim>\<open>tb1\<close>.\<close>

fun two_tables_scan_loop ::
  "'v evaluator \<Rightarrow> 'v table_manager \<Rightarrow> 'v table_manager \<Rightarrow> int \<Rightarrow> 'v index_manager
     \<Rightarrow> expr_node_t option \<Rightarrow> ('v, 's) callback
     \<Rightarrow> 'v record_manager list \<Rightarrow> ('v, 's) iter_state \<Rightarrow> ('v, 's) iter_state" where
  "two_tables_scan_loop ev tb1 tb2 cid1 idx2 cond callback [] s = s"
| "two_tables_scan_loop ev tb1 tb2 cid1 idx2 cond callback (tb1_rm # tb1_it) s =
     (let s1 = cache_record tb1 tb1_rm s;
          tb1_col = get_cached_column (cache s1) tb1 cid1
      in if tb1_col = None then two_tables_scan_loop ev tb1 tb2 cid1 idx2 cond callback tb1_it s1
         else (case two_tables_probe_loop ev tb1 tb2 cond callback tb1_rm (idx2 tb1_col) s1 of
                 (returned, s2) \<Rightarrow>
                   if returned then s2
                   else two_tables_scan_loop ev tb1 tb2 cid1 idx2 cond callback tb1_it s2))"

definition no_index_msg :: "column_ref_t \<Rightarrow> column_ref_t \<Rightarrow> string" where
  "no_index_msg l r =
     ''[Info] No index for '' @ cr_table l @ ''.'' @ cr_column l
       @ '' and '' @ cr_table r @ ''.'' @ cr_column r"

text \<open>
  \<^verbatim>\<open>dbms::iterate_two_tables_with_joint_cond_equal\<close>. The result is the returned flag
  (false: the strategy declines) and the state.
\<close>

definition iterate_two_tables_with_joint_cond_equal ::
  "'v evaluator \<Rightarrow> 'v table_manager \<Rightarrow> 'v table_manager \<Rightarrow> expr_node_t option
     \<Rightarrow> ('v, 's) callback \<Rightarrow> ('v, 's) iter_state \<Rightarrow> error + bool \<times> ('v, 's) iter_state" where
  "iterate_two_tables_with_joint_cond_equal ev tb1 tb2 cond callback s =
     (case get_join_cond cond of
        Inl e \<Rightarrow> Inl e
      | Inr None \<Rightarrow> Inr (False, s)
      | Inr (Some join_cond) \<Rightarrow>
          if op join_cond \<noteq> OPERATOR_EQ then Inr (False, s)
          else (case left join_cond of
             None \<Rightarrow> Inl NullPointerDereference
           | Some l \<Rightarrow>
          (case column_ref l of
             None \<Rightarrow> Inl NullPointerDereference
           | Some lref \<Rightarrow>
          (case (if cr_table lref \<noteq> get_table_name tb1 then (tb2, tb1) else (tb1, tb2)) of
             (tb1, tb2) \<Rightarrow>
          (case right join_cond of
             None \<Rightarrow> Inl NullPointerDereference
           | Some r \<Rightarrow>
          (case column_ref r of
             None \<Rightarrow> Inl NullPointerDereference
           | Some rref \<Rightarrow>
               let cid1 = lookup_column tb1 (cr_column lref);
                   cid2 = lookup_column tb2 (cr_column rref)
               in if cid1 < 0 \<or> cid2 < 0 then Inr (False, s)
                  else
                    let idx1 = get_index tb1 cid1;
                        idx2 = get_index tb2 cid2
                    in if idx1 = None \<and> idx2 = None
                       then Inr (False, put_msg (no_index_msg lref rref) s)
                       else (case (if idx2 = None then (tb2, tb1, idx1, cid2)
                                   else (tb1, tb2, idx2, cid1)) of
                               (tb1, tb2, None, cid1) \<Rightarrow> Inl NullPointerDereference
                             | (tb1, tb2, Some idx2, cid1) \<Rightarrow>
                                 Inr (True, two_tables_scan_loop ev tb1 tb2 cid1 idx2 cond
                                              callback (records tb1) s))))))))"


section \<open>Many-table join planner\<close>

text \<open>
  \<^verbatim>\<open>dbms::extract_and_cond\<close>: the conjuncts of the top-level \<^verbatim>\<open>AND\<close>s, left to right.
  The function reads \<^verbatim>\<open>cond->op\<close> without a null check.
\<close>

fun extract_and_cond :: "expr_node_t option \<Rightarrow> expr_node_t list \<Rightarrow> error + expr_node_t list" where
  "extract_and_cond None and_cond = Inl NullPointerDereference"
| "extract_and_cond (Some (ExprNode opr tt l r cr)) and_cond =
     (if opr = OPERATOR_AND
      then (case extract_and_cond l and_cond of
              Inl e \<Rightarrow> Inl e
            | Inr and_cond1 \<Rightarrow> extract_and_cond r and_cond1)
      else Inr (and_cond @ [ExprNode opr tt l r cr]))"

text \<open>The lambda \<^verbatim>\<open>lookup_table\<close>: the first table of that name, or \<open>-1\<close>.\<close>

fun lookup_table_loop :: "'v table_manager list \<Rightarrow> string \<Rightarrow> nat \<Rightarrow> int" where
  "lookup_table_loop [] name i = - 1"
| "lookup_table_loop (t # ts) name i =
     (if name = get_table_name t then int i else lookup_table_loop ts name (i + 1))"

definition lookup_table :: "'v table_manager list \<Rightarrow> string \<Rightarrow> int" where
  "lookup_table table_list name = lookup_table_loop table_list name 0"

text \<open>
  The join graph: the edge matrix \<^verbatim>\<open>E\<close> and the join conditions \<^verbatim>\<open>J\<close>.
  \<open>set2 M i j v\<close> is the assignment \<^verbatim>\<open>M[i][j] = v\<close>.
\<close>

type_synonym join_graph = "int list list \<times> expr_node_t option list list"

definition set2 :: "'a list list \<Rightarrow> nat \<Rightarrow> nat \<Rightarrow> 'a \<Rightarrow> 'a list list" where
  "set2 M i j v = M[i := (M ! i)[j := v]]"

text \<open>
  The body of the loop ``setup join condition graph'' of \<^verbatim>\<open>iterate_many_tables\<close>, for
  one conjunct \<^verbatim>\<open>c\<close>.
\<close>

definition join_graph_add :: "'v table_manager list \<Rightarrow> expr_node_t \<Rightarrow> join_graph \<Rightarrow> error + join_graph" where
  "join_graph_add table_list c G =
     (if op c \<noteq> OPERATOR_EQ then Inr G
      else (case left c of
         None \<Rightarrow> Inl NullPointerDereference
       | Some l \<Rightarrow>
      if term_type l \<noteq> TERM_COLUMN_REF then Inr G
      else (case right c of
         None \<Rightarrow> Inl NullPointerDereference
       | Some r \<Rightarrow>
      if term_type r \<noteq> TERM_COLUMN_REF then Inr G
      else (case column_ref l of
         None \<Rightarrow> Inl NullPointerDereference
       | Some lref \<Rightarrow>
      (case column_ref r of
         None \<Rightarrow> Inl NullPointerDereference
       | Some rref \<Rightarrow>
           let tid1 = lookup_table table_list (cr_table lref);
               tid2 = lookup_table table_list (cr_table rref)
           in if tid1 = - 1 \<or> tid2 = - 1 then Inl TableNotFound
              else
                let tb1 = table_list ! nat tid1;
                    tb2 = table_list ! nat tid2;
                    cid1 = lookup_column tb1 (cr_column lref);
                    cid2 = lookup_column tb2 (cr_column rref)
                in if cid1 = - 1 \<or> cid2 = - 1 then Inl ColumnNotFound
                   else
                     let idx1 = get_index tb1 cid1;
                         idx2 = get_index tb2 cid2
                     in if idx1 = None \<and> idx2 = None then Inr G
                        else
                          let G1 = (if idx2 \<noteq> None
                                    then (set2 (fst G) (nat tid2) (nat tid1) 1,
                                          set2 (snd G) (nat tid2) (nat tid1) (Some c))
                                    else G);
                              G2 = (if idx1 \<noteq> None
                                    then (set2 (fst G1) (nat tid1) (nat tid2) 1,
                                          set2 (snd G1) (nat tid1) (nat tid2) (Some c))
                                    else G1)
                          in Inr G2)))))"

fun join_graph_setup :: "'v table_manager list \<Rightarrow> expr_node_t list \<Rightarrow> join_graph \<Rightarrow> error + join_graph" where
  "join_graph_setup table_list [] G = Inr G"
| "join_graph_setup table_list (c # and_cond) G =
     (case join_graph_add table_list c G of
        Inl e \<Rightarrow> Inl e
      | Inr G1 \<Rightarrow> join_graph_setup table_list and_cond G1)"

text \<open>
  \<^verbatim>\<open>dbms::find_longest_path\<close>. The arrays \<^verbatim>\<open>mark\<close> and \<^verbatim>\<open>path\<close> are functions of the
  index, so that a write is never lost; \<^verbatim>\<open>max_depth\<close> is the reference parameter. The
  state is \<open>(mark, path, max_depth)\<close>. The loop counts \<open>i\<close> up from \<open>0\<close> until it is
  \<^verbatim>\<open>E.size()\<close>.
\<close>

type_synonym flp_state = "(nat \<Rightarrow> int) \<times> (nat \<Rightarrow> nat) \<times> int"

function find_longest_path ::
    "nat \<Rightarrow> nat \<Rightarrow> int list list \<Rightarrow> int \<Rightarrow> flp_state \<Rightarrow> bool \<times> flp_state"
  and find_longest_path_loop ::
    "nat \<Rightarrow> nat \<Rightarrow> int list list \<Rightarrow> int \<Rightarrow> nat \<Rightarrow> flp_state \<Rightarrow> bool \<times> flp_state"
where
  "find_longest_path now depth E excepted_len (mark, path, max_depth) =
     (let mark1 = mark(now := 1);
          path1 = path(depth := now);
          max_depth1 = (if int depth > max_depth then int depth else max_depth)
      in if int depth = excepted_len then (True, (mark1, path1, max_depth1))
         else find_longest_path_loop now depth E excepted_len 0 (mark1, path1, max_depth1))"
| "find_longest_path_loop now depth E excepted_len i (mark, path, max_depth) =
     (if \<not> i < length E then (False, (mark(now := 0), path, max_depth))
      else if E ! now ! i = 0 \<or> mark i \<noteq> 0
        then find_longest_path_loop now depth E excepted_len (i + 1) (mark, path, max_depth)
      else (case find_longest_path i (depth + 1) E excepted_len (mark, path, max_depth) of
              (True, st) \<Rightarrow> (True, st)
            | (False, st) \<Rightarrow> find_longest_path_loop now depth E excepted_len (i + 1) st))"
  by pat_completeness auto

text \<open>
  Termination: every call marks a vertex that was not marked, and a call that returns
  false leaves the marks as it found them.
\<close>

definition unmarked :: "int list list \<Rightarrow> (nat \<Rightarrow> int) \<Rightarrow> nat" where
  "unmarked E mark = card {j. j < length E \<and> mark j = 0}"

lemma unmarked_mark:
  assumes "i < length E" "mark i = 0"
  shows "unmarked E (mark(i := 1)) < unmarked E mark"
proof -
  have "{j. j < length E \<and> (mark(i := 1)) j = 0} \<subset> {j. j < length E \<and> mark j = 0}"
    using assms by auto
  moreover have "finite {j. j < length E \<and> mark j = 0}" by simp
  ultimately show ?thesis unfolding unmarked_def by (rule psubset_card_mono[rotated])
qed

lemma find_longest_path_restores_partial:
  "find_longest_path_find_longest_path_loop_dom (Inl (now, depth, E, e, st)) \<Longrightarrow>
     find_longest_path now depth E e st = (False, st') \<Longrightarrow> fst st' = (fst st)(now := 0)"
  "find_longest_path_find_longest_path_loop_dom (Inr (now', depth', E', e', i, sl)) \<Longrightarrow>
     find_longest_path_loop now' depth' E' e' i sl = (False, sl') \<Longrightarrow> fst sl' = (fst sl)(now' := 0)"
proof (induction now depth E e st and now' depth' E' e' i sl arbitrary: st' and sl'
       rule: find_longest_path_find_longest_path_loop.pinduct)
  case (1 now depth E excepted_len mark path max_depth)
  then show ?case
    by (auto simp: find_longest_path.psimps Let_def split: if_splits)
next
  case (2 now depth E excepted_len i mark path max_depth)
  show ?case
  proof (cases "i < length E")
    case False
    with 2(1,5) show ?thesis by (auto simp: find_longest_path_loop.psimps)
  next
    case True
    note i = this
    show ?thesis
    proof (cases "E ! now ! i = 0 \<or> mark i \<noteq> 0")
      case True
      with i 2(1,5)
      have "find_longest_path_loop now depth E excepted_len (i + 1) (mark, path, max_depth) = (False, sl')"
        by (simp add: find_longest_path_loop.psimps)
      with 2(2) i True show ?thesis by simp
    next
      case False
      obtain r st where r: "find_longest_path i (depth + 1) E excepted_len (mark, path, max_depth) = (r, st)"
        by (cases "find_longest_path i (depth + 1) E excepted_len (mark, path, max_depth)")
      with i False 2(1,5) have rF: "r = False"
        and l: "find_longest_path_loop now depth E excepted_len (i + 1) st = (False, sl')"
        by (auto simp: find_longest_path_loop.psimps split: if_splits bool.splits)
      from r rF have r': "find_longest_path i (depth + 1) E excepted_len (mark, path, max_depth) = (False, st)"
        by simp
      from i False have g: "\<not> \<not> i < length E" "\<not> (E ! now ! i = 0 \<or> mark i \<noteq> 0)" by auto
      have "fst st = (fst (mark, path, max_depth))(i := 0)" by (rule 2(3)[OF g r'])
      with False have "fst st = mark" by (simp add: fun_upd_idem)
      moreover have "fst sl' = (fst st)(now := 0)" by (rule 2(4)[OF g r[symmetric] rF l])
      ultimately show ?thesis by simp
    qed
  qed
qed

termination find_longest_path
proof (relation "inv_image (less_than <*lex*> less_than)
    (\<lambda>x. case x of
       Inl (now, depth, E, e, (mark, path, md)) \<Rightarrow> (unmarked E (mark(now := 1)), length E + 1)
     | Inr (now, depth, E, e, i, (mark, path, md)) \<Rightarrow> (unmarked E mark, length E - i))", goal_cases)
  case 1
  show ?case by (rule wf_inv_image) (rule wf_lex_prod; rule wf_less_than)
next
  case (2 now depth E excepted_len mark path max_depth x xa xb)
  then show ?case by simp
next
  case (3 now depth E excepted_len i mark path max_depth)
  then show ?case by auto
next
  case (4 now depth E excepted_len i mark path max_depth)
  then show ?case by (auto simp: unmarked_mark)
next
  case (5 now depth E excepted_len i mark path max_depth x y)
  then have "fst y = mark(i := 0)"
    using find_longest_path_restores_partial(1)[of i "depth + 1" E excepted_len "(mark, path, max_depth)" y]
    by (cases y) auto
  with 5 have "fst y = mark" by auto
  with 5 show ?case by (cases y) auto
qed

text \<open>
  ``find the longest path'' and ``generate iteration sequence'' of
  \<^verbatim>\<open>iterate_many_tables\<close>. The array \<^verbatim>\<open>path\<close> and the local \<^verbatim>\<open>_\<close> are not
  initialised in the source, so their first contents are parameters. The result is
  \<open>(path, max_depth)\<close>.
\<close>

definition plan_try_start :: "int list list \<Rightarrow> nat \<Rightarrow> (nat \<Rightarrow> nat) \<times> int \<times> nat \<Rightarrow> (nat \<Rightarrow> nat) \<times> int \<times> nat" where
  "plan_try_start E i = (\<lambda>(path, max_depth, start).
     case find_longest_path i 0 E 2147483647 ((\<lambda>_. 0), path, 0) of
       (_, (mark1, path1, m)) \<Rightarrow>
         if m > max_depth then (path1, m, i) else (path1, max_depth, start))"

definition plan_append :: "(nat \<Rightarrow> int) \<Rightarrow> nat \<Rightarrow> (nat \<Rightarrow> nat) \<times> nat \<Rightarrow> (nat \<Rightarrow> nat) \<times> nat" where
  "plan_append mark i = (\<lambda>(path, cur).
     if mark i = 0 then (path(cur + 1 := i), cur + 1) else (path, cur))"

definition iterate_many_tables_plan ::
  "int list list \<Rightarrow> nat \<Rightarrow> (nat \<Rightarrow> nat) \<Rightarrow> int \<Rightarrow> error + (nat \<Rightarrow> nat) \<times> int" where
  "iterate_many_tables_plan E len path0 uninit =
     (case fold (plan_try_start E) [0..<len] (path0, 0, 0) of
        (path1, max_depth, start) \<Rightarrow>
          (case find_longest_path start 0 E max_depth ((\<lambda>_. 0), path1, uninit) of
             (False, _) \<Rightarrow> Inl AssertionFailed
           | (True, (_, path2, _)) \<Rightarrow>
               let mark = fold (\<lambda>i mark. mark(path2 i := 1)) [0..<nat max_depth + 1] (\<lambda>_. 0)
               in case fold (plan_append mark) [0..<len] (path2, nat max_depth) of
                    (path3, cur) \<Rightarrow> Inr (path3, max_depth)))"


section \<open>Many-table executor\<close>

text \<open>
  ``setup iteration variable'': for the position \<open>i\<close> of the chain, the index of
  \<^verbatim>\<open>path[i]\<close> that is probed and the column of \<^verbatim>\<open>path[i + 1]\<close> that supplies the key.
  The state is \<open>(index_ref, index_cid)\<close>.
\<close>

definition iteration_variable ::
  "'v table_manager list \<Rightarrow> expr_node_t option list list \<Rightarrow> (nat \<Rightarrow> nat) \<Rightarrow> nat
     \<Rightarrow> 'v index_manager option list \<times> int list
     \<Rightarrow> error + 'v index_manager option list \<times> int list" where
  "iteration_variable table_list J path i = (\<lambda>(index_ref, index_cid).
     case J ! path i ! path (i + 1) of
       None \<Rightarrow> Inl NullPointerDereference
     | Some join_node \<Rightarrow>
    (case left join_node of
       None \<Rightarrow> Inl NullPointerDereference
     | Some l \<Rightarrow>
    (case column_ref l of
       None \<Rightarrow> Inl NullPointerDereference
     | Some lref \<Rightarrow>
    (case right join_node of
       None \<Rightarrow> Inl NullPointerDereference
     | Some r \<Rightarrow>
    (case column_ref r of
       None \<Rightarrow> Inl NullPointerDereference
     | Some rref \<Rightarrow>
         let tb = table_list ! path i;
             tb_next = table_list ! path (i + 1);
             (cid, ref) =
               (if cr_table lref = get_table_name tb
                then (lookup_column tb_next (cr_column rref),
                      get_index tb (lookup_column tb (cr_column lref)))
                else (lookup_column tb_next (cr_column lref),
                      get_index tb (lookup_column tb (cr_column rref))))
         in if ref = None then Inl AssertionFailed
            else Inr (index_ref[i := ref], index_cid[i := cid]))))))"

fun iteration_variables ::
  "'v table_manager list \<Rightarrow> expr_node_t option list list \<Rightarrow> (nat \<Rightarrow> nat) \<Rightarrow> nat list
     \<Rightarrow> 'v index_manager option list \<times> int list
     \<Rightarrow> error + 'v index_manager option list \<times> int list" where
  "iteration_variables table_list J path [] v = Inr v"
| "iteration_variables table_list J path (i # is) v =
     (case iteration_variable table_list J path i v of
        Inl e \<Rightarrow> Inl e
      | Inr v1 \<Rightarrow> iteration_variables table_list J path is v1)"

text \<open>
  The state of the nested iteration: \<^verbatim>\<open>record_list\<close>, \<^verbatim>\<open>rid_list\<close> and the
  iteration state.
\<close>

type_synonym ('v, 's) many_state =
  "'v record_manager option list \<times> int list \<times> ('v, 's) iter_state"

text \<open>
  The full-scan loop of \<^verbatim>\<open>iterate_many_tables_impl\<close> at one level; \<open>inner\<close> is the
  recursive call for \<^verbatim>\<open>now - 1\<close>. The flag of the result is the returned value
  (false: stop).
\<close>

fun many_tables_scan_loop ::
  "(('v, 's) many_state \<Rightarrow> error + bool \<times> ('v, 's) many_state) \<Rightarrow> 'v table_manager \<Rightarrow> nat
     \<Rightarrow> 'v record_manager list \<Rightarrow> ('v, 's) many_state \<Rightarrow> error + bool \<times> ('v, 's) many_state" where
  "many_tables_scan_loop inner tb pos [] ms = Inr (True, ms)"
| "many_tables_scan_loop inner tb pos (rm # it) (record_list, rid_list, s) =
     (case inner (record_list[pos := Some rm], rid_list[pos := rid rm], cache_record tb rm s) of
        Inl e \<Rightarrow> Inl e
      | Inr (ret, ms1) \<Rightarrow>
          if \<not> ret then Inr (False, ms1)
          else many_tables_scan_loop inner tb pos it ms1)"

text \<open>The index-probe loop at one level.\<close>

fun many_tables_probe_loop ::
  "'v evaluator \<Rightarrow> (('v, 's) many_state \<Rightarrow> error + bool \<times> ('v, 's) many_state)
     \<Rightarrow> 'v table_manager \<Rightarrow> nat \<Rightarrow> expr_node_t option
     \<Rightarrow> 'v record_manager list \<Rightarrow> ('v, 's) many_state \<Rightarrow> error + bool \<times> ('v, 's) many_state" where
  "many_tables_probe_loop ev inner tb2 pos join_cond [] ms = Inr (True, ms)"
| "many_tables_probe_loop ev inner tb2 pos join_cond (tb2_rm # tb2_it) (record_list, rid_list, s) =
     (let s1 = cache_record tb2 tb2_rm s
      in case eval_cond ev (cache s1) join_cond of
           Inl msg \<Rightarrow> Inr (False, (record_list, rid_list, put_msg msg s1))
         | Inr join_ret \<Rightarrow>
             if \<not> join_ret then Inr (True, (record_list, rid_list, s1))
             else (case inner (record_list[pos := Some tb2_rm], rid_list[pos := rid tb2_rm], s1) of
                     Inl e \<Rightarrow> Inl e
                   | Inr (ret, ms1) \<Rightarrow>
                       if \<not> ret then Inr (False, ms1)
                       else many_tables_probe_loop ev inner tb2 pos join_cond tb2_it ms1))"

text \<open>
  \<^verbatim>\<open>dbms::iterate_many_tables_impl\<close>. The last argument counts the levels left: the
  equation for \<open>0\<close> is the branch \<^verbatim>\<open>now < 0\<close>, the equation for \<open>Suc now\<close> is the call
  with \<^verbatim>\<open>now\<close>.
\<close>

primrec iterate_many_tables_impl ::
  "'v evaluator \<Rightarrow> 'v table_manager list \<Rightarrow> expr_node_t option list list \<Rightarrow> (nat \<Rightarrow> nat)
     \<Rightarrow> int list \<Rightarrow> 'v index_manager option list \<Rightarrow> expr_node_t option \<Rightarrow> ('v, 's) callback
     \<Rightarrow> nat \<Rightarrow> ('v, 's) many_state \<Rightarrow> error + bool \<times> ('v, 's) many_state" where
  "iterate_many_tables_impl ev table_list index_cond iter_order index_cid index cond callback 0 =
     (\<lambda>(record_list, rid_list, s).
        case (case cond of None \<Rightarrow> Inr True | Some c \<Rightarrow> eval_cond ev (cache s) cond) of
          Inl msg \<Rightarrow> Inr (False, (record_list, rid_list, put_msg msg s))
        | Inr result \<Rightarrow>
            if \<not> result then Inr (True, (record_list, rid_list, s))
            else (case callback table_list record_list rid_list s of
                    (ret, s1) \<Rightarrow> Inr (ret, (record_list, rid_list, s1))))"
| "iterate_many_tables_impl ev table_list index_cond iter_order index_cid index cond callback (Suc now) =
     (\<lambda>(record_list, rid_list, s).
        case index ! now of
          None \<Rightarrow>
            many_tables_scan_loop
              (iterate_many_tables_impl ev table_list index_cond iter_order index_cid index cond callback now)
              (table_list ! iter_order now) (iter_order now)
              (records (table_list ! iter_order now)) (record_list, rid_list, s)
        | Some idx \<Rightarrow>
            let tb_col = get_cached_column (cache s) (table_list ! iter_order (now + 1)) (index_cid ! now);
                tb2 = table_list ! iter_order now
            in many_tables_probe_loop ev
                 (iterate_many_tables_impl ev table_list index_cond iter_order index_cid index cond callback now)
                 tb2 (iter_order now) (index_cond ! iter_order now ! iter_order (now + 1))
                 (idx tb_col) (record_list, rid_list, s))"

definition join_with :: "string \<Rightarrow> string list \<Rightarrow> string" where
  "join_with sep xs = (case xs of [] \<Rightarrow> [] | x # ys \<Rightarrow> x @ concat (map (\<lambda>y. sep @ y) ys))"

definition iteration_order_msg :: "'v table_manager list \<Rightarrow> (nat \<Rightarrow> nat) \<Rightarrow> string" where
  "iteration_order_msg table_list path =
     ''[Info] Iteration order: ''
       @ join_with '', '' (map (\<lambda>i. get_table_name (table_list ! path (length table_list - i - 1)))
                               [0..<length table_list])"

text \<open>
  The second debug line, which names the join condition of every probed position of the
  chain. It reads pointers that ``setup iteration variable'' has already read, so an
  absent one cannot be met here and prints nothing.
\<close>

definition column_ref_text :: "expr_node_t option \<Rightarrow> string" where
  "column_ref_text n =
     (case n of
        None \<Rightarrow> []
      | Some l \<Rightarrow>
          (case column_ref l of
             None \<Rightarrow> []
           | Some ref \<Rightarrow> cr_table ref @ ''.'' @ cr_column ref))"

definition index_use_msg :: "expr_node_t option list list \<Rightarrow> (nat \<Rightarrow> nat) \<Rightarrow> nat \<Rightarrow> string" where
  "index_use_msg J path max_depth =
     ''[Info] Index use: ''
       @ join_with '', '' (map (\<lambda>i. case J ! path i ! path (i + 1) of
                                      None \<Rightarrow> []
                                    | Some node \<Rightarrow>
                                        column_ref_text (left node) @ ''-'' @ column_ref_text (right node))
                               [0..<max_depth])"

text \<open>
  \<^verbatim>\<open>dbms::iterate_many_tables\<close>. After a \<^verbatim>\<open>Table not found\<close> or \<^verbatim>\<open>Column not found\<close>
  diagnostic the function returns without iterating.
\<close>

definition iterate_many_tables ::
  "'v evaluator \<Rightarrow> 'v table_manager list \<Rightarrow> expr_node_t option \<Rightarrow> ('v, 's) callback
     \<Rightarrow> (nat \<Rightarrow> nat) \<times> int \<Rightarrow> ('v, 's) iter_state \<Rightarrow> error + ('v, 's) iter_state" where
  "iterate_many_tables ev table_list cond callback uninit s =
     (case extract_and_cond cond [] of
        Inl e \<Rightarrow> Inl e
      | Inr and_cond \<Rightarrow>
          let len = length table_list
          in case join_graph_setup table_list and_cond
                    (replicate len (replicate len 0), replicate len (replicate len None)) of
               Inl TableNotFound \<Rightarrow> Inr (put_msg ''[Error] Table not found!'' s)
             | Inl ColumnNotFound \<Rightarrow> Inr (put_msg ''[Error] Column not found!'' s)
             | Inl e \<Rightarrow> Inl e
             | Inr (E, J) \<Rightarrow>
                 (case iterate_many_tables_plan E len (fst uninit) (snd uninit) of
                    Inl e \<Rightarrow> Inl e
                  | Inr (path, max_depth) \<Rightarrow>
                      (case iteration_variables table_list J path [0..<nat max_depth]
                              (replicate len None, replicate len (- 1)) of
                         Inl e \<Rightarrow> Inl e
                       | Inr (index_ref, index_cid) \<Rightarrow>
                           (case iterate_many_tables_impl ev table_list J path index_cid index_ref
                                   cond callback len
                                   (replicate len None, replicate len 0, s) of
                              Inl e \<Rightarrow> Inl e
                            | Inr (ret, (record_list, rid_list, s1)) \<Rightarrow>
                                Inr (put_msg (index_use_msg J path (nat max_depth))
                                       (put_msg (iteration_order_msg table_list path) s1))))))"

section \<open>Dispatch\<close>

text \<open>\<^verbatim>\<open>dbms::iterate\<close>.\<close>

definition iterate ::
  "'v evaluator \<Rightarrow> 'v table_manager list \<Rightarrow> expr_node_t option \<Rightarrow> ('v, 's) callback
     \<Rightarrow> (nat \<Rightarrow> nat) \<times> int \<Rightarrow> ('v, 's) iter_state \<Rightarrow> error + ('v, 's) iter_state" where
  "iterate ev required_tables cond callback uninit s =
     (if length required_tables = 1
      then Inr (iterate_one_table ev (required_tables ! 0) cond
                  (\<lambda>tb rm rid. callback required_tables [Some rm] [rid]) s)
      else if length required_tables = 2
      then (case iterate_two_tables_with_joint_cond_equal ev (required_tables ! 0)
                   (required_tables ! 1) cond callback s of
              Inl e \<Rightarrow> Inl e
            | Inr (True, s1) \<Rightarrow> Inr (put_msg ''[Info] Join two tables using index.'' s1)
            | Inr (False, s1) \<Rightarrow>
                (case iterate_many_tables ev required_tables cond callback uninit s1 of
                   Inl e \<Rightarrow> Inl e
                 | Inr s2 \<Rightarrow> Inr (put_msg ''[Info] Join two tables by enumerating.'' s2)))
      else (case iterate_many_tables ev required_tables cond callback uninit s of
              Inl e \<Rightarrow> Inl e
            | Inr s1 \<Rightarrow> Inr (put_msg ''[Info] Join many tables by enumerating.'' s1)))"


section \<open>SELECT\<close>

text \<open>
  The statement: the table names, the selection expressions and the predicate
  (\<^verbatim>\<open>select_info_t\<close>). The current database is the list of its tables, \<open>None\<close> when no
  database is open.
\<close>

record select_info_t =
  si_tables :: "string list"
  si_exprs :: "expr_node_t list"
  si_where :: "expr_node_t option"

text \<open>\<^verbatim>\<open>database::get_table(const char *)\<close>: the first table of that name.\<close>

fun get_table :: "'v table_manager list \<Rightarrow> string \<Rightarrow> 'v table_manager option" where
  "get_table [] name = None"
| "get_table (t # ts) name = (if name = get_table_name t then Some t else get_table ts name)"

text \<open>
  What SELECT writes to the output file, item by item: the header, a line of values
  (complete, or cut short by an evaluation error), a line of dumped records, the one
  value of an aggregate, and the closing empty line. A value is written by its type
  tag; the item keeps the value.
\<close>

datatype 'v out_item =
    OutHeader "string list"
  | OutTableHeaders "string list"
  | OutRow "expression list"
  | OutPartial "expression list"
  | OutRecords "'v record_manager option list"
  | OutInt int
  | OutFloat real
  | OutEnd

text \<open>
  The variables the two SELECT consumers capture: the output, the row counter and the
  accumulators of an aggregate.
\<close>

record 'v select_state =
  output_file :: "'v out_item list"
  counter :: int
  agg_val_i :: int
  agg_val_f :: real
  agg_type :: term_type_t

definition write_out :: "'v out_item \<Rightarrow> ('v, 'v select_state) iter_state \<Rightarrow> ('v, 'v select_state) iter_state" where
  "write_out x s = s\<lparr>cst := (cst s)\<lparr>output_file := output_file (cst s) @ [x]\<rparr>\<rparr>"

text \<open>The loop ``get required tables'': \<open>Inl\<close> names the table that does not exist.\<close>

fun get_required_tables :: "'v table_manager list \<Rightarrow> string list \<Rightarrow> string + 'v table_manager list" where
  "get_required_tables db [] = Inr []"
| "get_required_tables db (name # names) =
     (case get_table db name of
        None \<Rightarrow> Inl name
      | Some tm \<Rightarrow>
          (case get_required_tables db names of
             Inl e \<Rightarrow> Inl e
           | Inr tms \<Rightarrow> Inr (tm # tms)))"

text \<open>
  The loop over the selection expressions in the consumer of \<^verbatim>\<open>select_rows\<close>:
  \<open>Inl\<close> carries the thrown message and the values already written.
\<close>

fun select_eval_exprs ::
  "'v evaluator \<Rightarrow> 'v row_cache \<Rightarrow> expr_node_t list \<Rightarrow> expression list
     \<Rightarrow> string \<times> expression list + expression list" where
  "select_eval_exprs ev c [] written = Inr written"
| "select_eval_exprs ev c (e # exprs) written =
     (case eval ev c (Some e) of
        Inl msg \<Rightarrow> Inl (msg, written)
      | Inr ret \<Rightarrow> select_eval_exprs ev c exprs (written @ [ret]))"

definition select_callback :: "'v evaluator \<Rightarrow> expr_node_t list \<Rightarrow> ('v, 'v select_state) callback" where
  "select_callback ev exprs tables recs rids s =
     (case select_eval_exprs ev (cache s) exprs [] of
        Inl (msg, written) \<Rightarrow> (False, put_msg msg (write_out (OutPartial written) s))
      | Inr vals \<Rightarrow>
          let s1 = write_out (if exprs = [] then OutRecords recs else OutRow vals) s
          in (True, s1\<lparr>cst := (cst s1)\<lparr>counter := counter (cst s1) + 1\<rparr>\<rparr>))"

text \<open>
  Float arithmetic is not modelled: the three operations of the aggregate are
  parameters. \<open>float_add\<close> is \<^verbatim>\<open>val_f += x\<close>, \<open>float_div_int\<close> is \<^verbatim>\<open>val_f /= counter\<close>,
  \<open>int_avg\<close> is \<^verbatim>\<open>double(val_i) / counter\<close> stored in a \<^verbatim>\<open>float\<close>.
\<close>

record float_arith =
  float_add :: "real \<Rightarrow> real \<Rightarrow> real"
  float_div_int :: "real \<Rightarrow> int \<Rightarrow> real"
  int_avg :: "int \<Rightarrow> int \<Rightarrow> real"

text \<open>
  The limits of \<^verbatim>\<open><limits>\<close>: \<^verbatim>\<open>numeric_limits<float>::min()\<close> is the smallest positive
  normalised value. \<^verbatim>\<open>val_i += x\<close> is taken modulo \<open>2^32\<close>.
\<close>

definition int_max :: int where "int_max = 2147483647"
definition int_min :: int where "int_min = - 2147483648"
definition float_max :: real where "float_max = (2 - 1 / 2 ^ 23) * 2 ^ 127"
definition float_min :: real where "float_min = 1 / 2 ^ 126"

definition wrap32 :: "int \<Rightarrow> int" where
  "wrap32 x = (x + 2147483648) mod 4294967296 - 2147483648"

text \<open>The initial accumulators of \<^verbatim>\<open>select_rows_aggregate\<close>: \<open>(val_i, val_f)\<close>.\<close>

definition aggregate_init :: "operator_type \<Rightarrow> int \<times> real" where
  "aggregate_init opr =
     (if opr = OPERATOR_MIN then (int_max, float_max)
      else if opr = OPERATOR_MAX then (int_min, float_min)
      else (0, 0))"

text \<open>The accumulator updates of the consumer, for a float value and for any other.\<close>

definition aggregate_update :: "float_arith \<Rightarrow> operator_type \<Rightarrow> expression \<Rightarrow> 'v select_state \<Rightarrow> 'v select_state" where
  "aggregate_update fa opr ret a =
     (if ex_type ret = TERM_FLOAT
      then (if opr = OPERATOR_SUM \<or> opr = OPERATOR_AVG
              then a\<lparr>agg_val_f := float_add fa (agg_val_f a) (val_f ret)\<rparr>
            else if opr = OPERATOR_MIN
              then (if val_f ret < agg_val_f a then a\<lparr>agg_val_f := val_f ret\<rparr> else a)
            else if opr = OPERATOR_MAX
              then (if val_f ret > agg_val_f a then a\<lparr>agg_val_f := val_f ret\<rparr> else a)
            else a)
      else (if opr = OPERATOR_SUM \<or> opr = OPERATOR_AVG
              then a\<lparr>agg_val_i := wrap32 (agg_val_i a + val_i ret)\<rparr>
            else if opr = OPERATOR_MIN
              then (if val_i ret < agg_val_i a then a\<lparr>agg_val_i := val_i ret\<rparr> else a)
            else if opr = OPERATOR_MAX
              then (if val_i ret > agg_val_i a then a\<lparr>agg_val_i := val_i ret\<rparr> else a)
            else a))"

definition aggregate_callback ::
  "float_arith \<Rightarrow> 'v evaluator \<Rightarrow> expr_node_t \<Rightarrow> ('v, 'v select_state) callback" where
  "aggregate_callback fa ev expr tables recs rids s =
     (if op expr \<noteq> OPERATOR_COUNT
      then (case eval ev (cache s) (left expr) of
              Inl msg \<Rightarrow> (False, put_msg msg s)
            | Inr ret \<Rightarrow>
                let a = aggregate_update fa (op expr) ret ((cst s)\<lparr>agg_type := ex_type ret\<rparr>)
                in (True, s\<lparr>cst := a\<lparr>counter := counter a + 1\<rparr>\<rparr>))
      else (True, s\<lparr>cst := (cst s)\<lparr>counter := counter (cst s) + 1\<rparr>\<rparr>))"

text \<open>What \<^verbatim>\<open>select_rows_aggregate\<close> does after the iteration.\<close>

definition aggregate_finish ::
  "float_arith \<Rightarrow> expr_node_t \<Rightarrow> ('v, 'v select_state) iter_state \<Rightarrow> ('v, 'v select_state) iter_state" where
  "aggregate_finish fa expr s =
     (let a = cst s;
          summary = (\<lambda>s1. write_out OutEnd (s1\<lparr>msgs := msgs s1 @ [RowsSelected (counter a)]\<rparr>))
      in if op expr = OPERATOR_COUNT then summary (write_out (OutInt (counter a)) s)
         else if agg_type a \<noteq> TERM_FLOAT \<and> agg_type a \<noteq> TERM_INT
           then put_msg ''[Error] Aggregate only support for int and float type.'' s
         else if op expr = OPERATOR_AVG
           then summary (write_out (OutFloat
                  (if agg_type a = TERM_INT then int_avg fa (agg_val_i a) (counter a)
                   else float_div_int fa (agg_val_f a) (counter a))) s)
         else if agg_type a = TERM_FLOAT then summary (write_out (OutFloat (agg_val_f a)) s)
         else summary (write_out (OutInt (agg_val_i a)) s))"

text \<open>
  \<^verbatim>\<open>dbms::select_rows_aggregate\<close>, from the state in which \<^verbatim>\<open>select_rows\<close> has written
  the header.
\<close>

definition select_rows_aggregate ::
  "float_arith \<Rightarrow> 'v evaluator \<Rightarrow> select_info_t \<Rightarrow> 'v table_manager list \<Rightarrow> expr_node_t list
     \<Rightarrow> (nat \<Rightarrow> nat) \<times> int \<Rightarrow> ('v, 'v select_state) iter_state
     \<Rightarrow> error + ('v, 'v select_state) iter_state" where
  "select_rows_aggregate fa ev info required_tables exprs uninit s =
     (if length exprs \<noteq> 1
      then Inr (put_msg ''[Error] Support only for one select expression for aggregate select.'' s)
      else
        let expr = exprs ! 0;
            s0 = s\<lparr>cst := (cst s)\<lparr>agg_val_i := fst (aggregate_init (op expr)),
                                   agg_val_f := snd (aggregate_init (op expr)),
                                   agg_type := TERM_NONE, counter := 0\<rparr>\<rparr>
        in case iterate ev required_tables (si_where info) (aggregate_callback fa ev expr) uninit s0 of
             Inl e \<Rightarrow> Inl e
           | Inr s1 \<Rightarrow> Inr (aggregate_finish fa expr s1))"

text \<open>
  \<^verbatim>\<open>dbms::select_rows\<close>. The last argument is the row cache the statement starts
  with.
\<close>

definition select_rows ::
  "float_arith \<Rightarrow> 'v evaluator \<Rightarrow> 'v table_manager list option \<Rightarrow> select_info_t
     \<Rightarrow> (nat \<Rightarrow> nat) \<times> int \<Rightarrow> 'v row_cache \<Rightarrow> error + ('v, 'v select_state) iter_state" where
  "select_rows fa ev cur_db info uninit c0 =
     (let s = \<lparr>cache = c0, msgs = [],
               cst = \<lparr>output_file = [], counter = 0, agg_val_i = 0, agg_val_f = 0, agg_type = TERM_NONE\<rparr>\<rparr>
      in case cur_db of
           None \<Rightarrow> Inr (put_msg ''[Error] database is not opened.'' s)
         | Some db \<Rightarrow>
             (case get_required_tables db (si_tables info) of
                Inl name \<Rightarrow> Inr (put_msg (''[Error] table `'' @ name @ ''` doesn't exists.'') s)
              | Inr required_tables \<Rightarrow>
                  let exprs = si_exprs info;
                      s1 = write_out (if exprs = []
                                      then OutTableHeaders (map get_table_name required_tables)
                                      else OutHeader (map (to_string ev) exprs)) s
                  in if list_ex (is_aggregate ev) exprs
                     then select_rows_aggregate fa ev info required_tables exprs uninit s1
                     else (case iterate ev required_tables (si_where info)
                                  (select_callback ev exprs) uninit s1 of
                             Inl e \<Rightarrow> Inl e
                           | Inr s2 \<Rightarrow>
                               Inr (write_out OutEnd
                                     (s2\<lparr>msgs := msgs s2 @ [RowsSelected (counter (cst s2))]\<rparr>)))))"


section \<open>INSERT\<close>

text \<open>
  The statement (\<^verbatim>\<open>insert_info_t\<close>): the table, the column list (null when omitted) and
  the value tuples.
\<close>

record insert_info_t =
  ii_table :: string
  ii_columns :: "column_ref_t list option"
  ii_values :: "expr_node_t list list"

text \<open>
  The collaborators of INSERT: the temp record and the commit of the table manager,
  over the stored content \<open>'t\<close> of the table, and the type casts that produce the bytes
  \<open>'b\<close>.
\<close>

record ('t, 'b) insert_ops =
  init_temp_record :: "'t \<Rightarrow> 't"
  set_temp_record :: "'t \<Rightarrow> int \<Rightarrow> 'b \<Rightarrow> bool \<times> 't"
  insert_record :: "'t \<Rightarrow> int \<times> 't"
  type_compatible :: "int \<Rightarrow> expression \<Rightarrow> bool"
  column_to_term :: "int \<Rightarrow> term_type_t"
  expr_to_db :: "expression \<Rightarrow> term_type_t \<Rightarrow> 'b"

text \<open>
  What the statement leaves: the diagnostics, the content of the table, and the counts
  \<open>(count_succ, count_fail)\<close> when the closing summary is printed.
\<close>

record 't insert_result =
  ir_msgs :: "diag list"
  ir_table :: 't
  ir_summary :: "(int \<times> int) option"

text \<open>The loop that resolves an explicit column list: \<open>Inl\<close> is the unknown column.\<close>

fun insert_lookup_columns :: "'v table_manager \<Rightarrow> column_ref_t list \<Rightarrow> string + int list" where
  "insert_lookup_columns tb [] = Inr []"
| "insert_lookup_columns tb (column # link) =
     (let cid = lookup_column tb (cr_column column)
      in if cid < 0 then Inl (cr_column column)
         else (case insert_lookup_columns tb link of
                 Inl e \<Rightarrow> Inl e
               | Inr cols_id \<Rightarrow> Inr (cid # cols_id)))"

text \<open>
  The inner loop of \<^verbatim>\<open>insert_rows\<close> over one value tuple, whose arity has been
  checked, so that the columns and the expressions advance together. \<open>Inl\<close> is a
  \<^verbatim>\<open>return\<close> from the statement with its diagnostic; \<open>Inr\<close> carries \<^verbatim>\<open>succ\<close>.
\<close>

fun insert_set_columns ::
  "'v evaluator \<Rightarrow> ('t, 'b) insert_ops \<Rightarrow> 'v table_manager \<Rightarrow> 'v row_cache
     \<Rightarrow> (int \<times> expr_node_t) list \<Rightarrow> 't \<Rightarrow> string \<times> 't + bool \<times> 't" where
  "insert_set_columns ev ops tb c [] t = Inr (True, t)"
| "insert_set_columns ev ops tb c ((it, e) # expr_list) t =
     (case eval ev c (Some e) of
        Inl msg \<Rightarrow> Inl (msg, t)
      | Inr v \<Rightarrow>
          let col_type = get_column_type tb it
          in if \<not> type_compatible ops col_type v then Inl (''[Error] incompatible type.'', t)
             else
               let desired_type = column_to_term ops col_type;
                   db_val = expr_to_db ops v desired_type
               in (case set_temp_record ops t it db_val of
                     (ok, t1) \<Rightarrow>
                       if \<not> ok then Inr (False, t1)
                       else insert_set_columns ev ops tb c expr_list t1))"

text \<open>
  The loop of \<^verbatim>\<open>insert_rows\<close> over the value tuples; the state is the table content,
  \<^verbatim>\<open>count_succ\<close>, \<^verbatim>\<open>count_fail\<close> and the diagnostics.
\<close>

fun insert_rows_loop ::
  "'v evaluator \<Rightarrow> ('t, 'b) insert_ops \<Rightarrow> 'v table_manager \<Rightarrow> 'v row_cache \<Rightarrow> int list
     \<Rightarrow> expr_node_t list list \<Rightarrow> 't \<times> int \<times> int \<times> diag list \<Rightarrow> 't insert_result" where
  "insert_rows_loop ev ops tb c cols_id [] (t, count_succ, count_fail, ms) =
     \<lparr>ir_msgs = ms @ [RowsInserted count_succ count_fail], ir_table = t,
      ir_summary = Some (count_succ, count_fail)\<rparr>"
| "insert_rows_loop ev ops tb c cols_id (expr_list # list) (t, count_succ, count_fail, ms) =
     (let t1 = init_temp_record ops t
      in if length expr_list \<noteq> length cols_id
         then insert_rows_loop ev ops tb c cols_id list
                (t1, count_succ, count_fail, ms @ [Text ''[Error] column size not equal.''])
         else (case insert_set_columns ev ops tb c (zip cols_id expr_list) t1 of
                 Inl (msg, t2) \<Rightarrow> \<lparr>ir_msgs = ms @ [Text msg], ir_table = t2, ir_summary = None\<rparr>
               | Inr (succ, t2) \<Rightarrow>
                   (case (if succ then (case insert_record ops t2 of (new_rid, t3) \<Rightarrow> (new_rid > 0, t3))
                          else (False, t2)) of
                      (succ1, t3) \<Rightarrow>
                        insert_rows_loop ev ops tb c cols_id list
                          (t3, count_succ + (if succ1 then 1 else 0),
                           count_fail + 1 - (if succ1 then 1 else 0), ms))))"

text \<open>
  \<^verbatim>\<open>dbms::insert_rows\<close>; \<open>t\<close> is the stored content of the table the statement names.
\<close>

definition insert_rows ::
  "'v evaluator \<Rightarrow> ('t, 'b) insert_ops \<Rightarrow> 'v table_manager list option \<Rightarrow> insert_info_t
     \<Rightarrow> 'v row_cache \<Rightarrow> 't \<Rightarrow> 't insert_result" where
  "insert_rows ev ops cur_db info c t =
     (case cur_db of
        None \<Rightarrow> \<lparr>ir_msgs = [Text ''[Error] database is not opened.''], ir_table = t, ir_summary = None\<rparr>
      | Some db \<Rightarrow>
          (case get_table db (ii_table info) of
             None \<Rightarrow> \<lparr>ir_msgs = [Text (''[Error] table `'' @ ii_table info @ ''` not found.'')],
                       ir_table = t, ir_summary = None\<rparr>
           | Some tb \<Rightarrow>
               (case (case ii_columns info of
                        None \<Rightarrow> Inr (map int [0..<nat (get_column_num tb - 1)])
                      | Some columns \<Rightarrow> insert_lookup_columns tb columns) of
                  Inl column \<Rightarrow>
                    \<lparr>ir_msgs = [Text (''[Error] No column `'' @ column @ ''` in table `''
                                        @ get_table_name tb @ ''`.'')],
                     ir_table = t, ir_summary = None\<rparr>
                | Inr cols_id \<Rightarrow>
                    insert_rows_loop ev ops tb c cols_id (ii_values info) (t, 0, 0, []))))"

section \<open>An example database\<close>

text \<open>
  A small database over integer cells, an evaluator for column references and equalities
  between them, and two consumers. The tables have the columns \<open>x\<close> and \<open>y\<close>.
\<close>

definition ex_ref :: "string \<Rightarrow> string \<Rightarrow> expr_node_t" where
  "ex_ref t c = ExprNode OPERATOR_NONE TERM_COLUMN_REF None None (Some \<lparr>cr_table = t, cr_column = c\<rparr>)"

definition ex_eq :: "expr_node_t \<Rightarrow> expr_node_t \<Rightarrow> expr_node_t" where
  "ex_eq a b = ExprNode OPERATOR_EQ TERM_NONE (Some a) (Some b) None"

definition ex_row :: "int \<Rightarrow> int option list \<Rightarrow> int record_manager" where
  "ex_row r cs = \<lparr>rid = r, cells = cs\<rparr>"

definition ex_index :: "nat \<Rightarrow> int record_manager list \<Rightarrow> int index_manager" where
  "ex_index cid sorted_rows key =
     (case key of
        None \<Rightarrow> []
      | Some k \<Rightarrow> filter (\<lambda>rm. case cells rm ! cid of None \<Rightarrow> False | Some v \<Rightarrow> k \<le> v) sorted_rows)"

definition ex_table :: "string \<Rightarrow> int record_manager list \<Rightarrow> (int \<Rightarrow> int index_manager option) \<Rightarrow> int table_manager" where
  "ex_table name rows idx =
     \<lparr>get_table_name = name,
      lookup_column = (\<lambda>c. if c = ''x'' then 0 else if c = ''y'' then 1 else - 1),
      get_index = idx, get_column_type = (\<lambda>_. 0), get_column_num = 3, records = rows\<rparr>"

definition ex_int :: "int \<Rightarrow> expression" where
  "ex_int a = \<lparr>ex_type = TERM_INT, val_i = a, val_f = 0, val_b = False, val_s = []\<rparr>"

definition ex_bool :: "bool \<Rightarrow> expression" where
  "ex_bool b = \<lparr>ex_type = TERM_BOOL, val_i = 0, val_f = 0, val_b = b, val_s = []\<rparr>"

definition ex_cell :: "int row_cache \<Rightarrow> expr_node_t \<Rightarrow> int option" where
  "ex_cell c n =
     (case column_ref n of
        None \<Rightarrow> None
      | Some ref \<Rightarrow>
          (case c (cr_table ref) of
             None \<Rightarrow> None
           | Some rm \<Rightarrow> if cr_column ref = ''x'' then cells rm ! 0 else cells rm ! 1))"

definition ex_eval :: "int row_cache \<Rightarrow> expr_node_t option \<Rightarrow> string + expression" where
  "ex_eval c e =
     (case e of
        None \<Rightarrow> Inl ''[Error] no expression.''
      | Some n \<Rightarrow>
          if op n = OPERATOR_EQ
          then (case (left n, right n) of
                  (Some l, Some r) \<Rightarrow>
                    (case (ex_cell c l, ex_cell c r) of
                       (Some a, Some b) \<Rightarrow> Inr (ex_bool (a = b))
                     | _ \<Rightarrow> Inl ''[Error] comparison with NULL.'')
                | _ \<Rightarrow> Inl ''[Error] malformed expression.'')
          else if term_type n = TERM_COLUMN_REF
          then (case ex_cell c n of
                  Some a \<Rightarrow> Inr (ex_int a)
                | None \<Rightarrow> Inl ''[Error] no value.'')
          else Inl ''[Error] unsupported expression.'')"

definition ex_ev :: "int evaluator" where
  "ex_ev = \<lparr>eval = ex_eval,
            expr_to_bool = (\<lambda>v. if ex_type v = TERM_BOOL then Inr (val_b v) else Inl ''[Error] not a boolean.''),
            is_aggregate = (\<lambda>n. op n \<in> {OPERATOR_MIN, OPERATOR_MAX, OPERATOR_SUM, OPERATOR_AVG, OPERATOR_COUNT}),
            to_string = (\<lambda>n. case column_ref n of None \<Rightarrow> ''?'' | Some ref \<Rightarrow> cr_table ref @ ''.'' @ cr_column ref)\<rparr>"

definition ex_state :: "'s \<Rightarrow> (int, 's) iter_state" where
  "ex_state a = \<lparr>cache = Map.empty, msgs = [], cst = a\<rparr>"

text \<open>Two tables \<open>A(x, y)\<close> and \<open>B(x, y)\<close> with an index on \<open>B.x\<close>.\<close>

definition ex_A :: "int table_manager" where
  "ex_A = ex_table ''A'' [ex_row 1 [Some 1, Some 10], ex_row 2 [Some 2, Some 20]] (\<lambda>_. None)"

definition ex_B_rows :: "int record_manager list" where
  "ex_B_rows = [ex_row 1 [Some 1, Some 100], ex_row 2 [Some 2, Some 200], ex_row 3 [Some 3, Some 300]]"

definition ex_B :: "int table_manager" where
  "ex_B = ex_table ''B'' ex_B_rows (\<lambda>cid. if cid = 0 then Some (ex_index 0 ex_B_rows) else None)"

definition ex_join :: expr_node_t where
  "ex_join = ex_eq (ex_ref ''A'' ''x'') (ex_ref ''B'' ''x'')"

text \<open>A consumer that counts its invocations and always asks to stop.\<close>

definition stop_callback :: "(int, nat) callback" where
  "stop_callback tables recs rids s = (False, s\<lparr>cst := cst s + 1\<rparr>)"

lemmas ex_defs = ex_ref_def ex_eq_def ex_row_def ex_index_def ex_table_def ex_int_def ex_bool_def
  ex_cell_def ex_eval_def ex_ev_def ex_state_def ex_A_def ex_B_def ex_B_rows_def ex_join_def


text \<open>A consumer that counts its invocations and always continues.\<close>

definition count_callback :: "(int, nat) callback" where
  "count_callback tables recs rids s = (True, s\<lparr>cst := cst s + 1\<rparr>)"

section \<open>The single-table scan\<close>

lemma iterate_one_table_loop_no_cond:
  assumes "\<And>t r i x. fst (callback t r i x)"
  shows "iterate_one_table_loop ev tb None callback rows s =
         fold (\<lambda>rm x. snd (callback tb rm (rid rm) (cache_record tb rm x))) rows s"
proof (induction rows arbitrary: s)
  case Nil
  show ?case by simp
next
  case (Cons rm rows)
  obtain ret s2 where c: "callback tb rm (rid rm) (cache_record tb rm s) = (ret, s2)"
    by (cases "callback tb rm (rid rm) (cache_record tb rm s)")
  with assms[of tb rm "rid rm" "cache_record tb rm s"] have "ret" by simp
  with c Cons show ?case by simp
qed

section \<open>The predicate may not be absent on the many-table path\<close>

text \<open>
  C9. \<^verbatim>\<open>iterate_many_tables\<close> reads the condition tree in \<^verbatim>\<open>extract_and_cond\<close> before
  any null check: with an absent predicate it dereferences a null pointer, whatever the
  tables are. So does \<^verbatim>\<open>iterate\<close> for every number of tables other than one (for two
  tables the index join declines first), and no tuple reaches the consumer. On the
  single-table path an absent predicate passes every record to the consumer.
\<close>

theorem null_predicate_many_tables:
  "iterate_many_tables ev table_list None callback uninit s = Inl NullPointerDereference
   \<and> (length required_tables \<noteq> 1 \<longrightarrow>
        iterate ev required_tables None callback uninit s = Inl NullPointerDereference)
   \<and> ((\<forall>t r i x. fst (callback t r i x)) \<longrightarrow>
        iterate ev [tb] None callback uninit s =
          Inr (fold (\<lambda>rm x. snd (callback [tb] [Some rm] [rid rm] (cache_record tb rm x))) (records tb) s))"
proof (intro conjI impI)
  show m: "iterate_many_tables ev table_list None callback uninit s = Inl NullPointerDereference" for table_list
    by (simp add: iterate_many_tables_def)
  have t: "iterate_two_tables_with_joint_cond_equal ev a b None callback s = Inr (False, s)" for a b
    by (simp add: iterate_two_tables_with_joint_cond_equal_def get_join_cond_def)
  show "iterate ev required_tables None callback uninit s = Inl NullPointerDereference"
    if "length required_tables \<noteq> 1"
    using that by (simp add: iterate_def m t)
  show "iterate ev [tb] None callback uninit s =
          Inr (fold (\<lambda>rm x. snd (callback [tb] [Some rm] [rid rm] (cache_record tb rm x))) (records tb) s)"
    if "\<forall>t r i x. fst (callback t r i x)"
    using that by (simp add: iterate_def iterate_one_table_def iterate_one_table_loop_no_cond)
qed

theorem null_predicate_many_tables_witness:
  "length [ex_A, ex_B] \<noteq> 1
   \<and> iterate ex_ev [ex_A, ex_B] None count_callback ((\<lambda>_. 0), 0) (ex_state 0) = Inl NullPointerDereference
   \<and> (\<forall>t r i x. fst (count_callback t r i x))
   \<and> map_sum id cst (iterate ex_ev [ex_A] None count_callback ((\<lambda>_. 0), 0) (ex_state 0)) = Inr 2"
  using null_predicate_many_tables[of ex_ev "[ex_A, ex_B]" count_callback "((\<lambda>_. 0), 0)" "ex_state 0" "[ex_A, ex_B]" ex_A]
  by (simp add: count_callback_def ex_A_def ex_table_def cache_record_def ex_state_def)

section \<open>Early stop\<close>

text \<open>
  C2. In the two-table index join the \<^verbatim>\<open>break\<close> after a false consumer result leaves
  the probe loop only; the scan of the driver table goes on. With the join
  \<open>A.x = B.x\<close> of the example, whose index is on \<open>B.x\<close>, the consumer that always
  asks to stop is invoked for \<open>(1, 1)\<close> and again for \<open>(2, 2)\<close>.
\<close>

theorem two_tables_continue_after_stop:
  "map_sum id cst (iterate ex_ev [ex_A, ex_B] (Some ex_join) stop_callback uninit (ex_state 0)) = Inr 2"
  by (simp add: iterate_def iterate_two_tables_with_joint_cond_equal_def get_join_cond_def
      ex_defs stop_callback_def cache_record_def get_cached_column_def eval_cond_def put_msg_def Let_def)

section \<open>Driver rows without a join key\<close>

text \<open>
  The value \<^verbatim>\<open>tb->get_cached_column(cid)\<close> returns right after \<^verbatim>\<open>tb->cache_record(&rm)\<close>.
\<close>

definition driver_key :: "'v table_manager \<Rightarrow> int \<Rightarrow> 'v record_manager \<Rightarrow> 'v option" where
  "driver_key tb cid rm = get_cached_column [get_table_name tb \<mapsto> rm] tb cid"

lemma get_cached_column_cache_record:
  "get_cached_column (cache (cache_record tb rm s)) tb cid = driver_key tb cid rm"
  by (simp add: get_cached_column_def cache_record_def driver_key_def)

lemma cache_record_overwrite:
  "cache_record tb rm (cache_record tb rm' s) = cache_record tb rm s"
  by (simp add: cache_record_def)

lemma two_tables_scan_loop_null_key:
  "driver_key tb1 cid1 rm = None \<Longrightarrow>
     two_tables_scan_loop ev tb1 tb2 cid1 idx2 cond callback (rm # it) s =
     two_tables_scan_loop ev tb1 tb2 cid1 idx2 cond callback it (cache_record tb1 rm s)"
  by (simp add: get_cached_column_cache_record)

lemma two_tables_scan_loop_key:
  "driver_key tb1 cid1 rm \<noteq> None \<Longrightarrow>
     two_tables_scan_loop ev tb1 tb2 cid1 idx2 cond callback (rm # it) s =
     (case two_tables_probe_loop ev tb1 tb2 cond callback rm (idx2 (driver_key tb1 cid1 rm))
             (cache_record tb1 rm s) of
        (returned, s2) \<Rightarrow>
          if returned then s2
          else two_tables_scan_loop ev tb1 tb2 cid1 idx2 cond callback it s2)"
  by (auto simp: get_cached_column_cache_record Let_def)

lemma two_tables_scan_loop_overwrite:
  "two_tables_scan_loop ev tb1 tb2 cid1 idx2 cond callback (rm # it) (cache_record tb1 rm' s) =
   two_tables_scan_loop ev tb1 tb2 cid1 idx2 cond callback (rm # it) s"
  by (simp add: cache_record_overwrite)

lemma two_tables_scan_loop_skip_nulls:
  "\<exists>c. two_tables_scan_loop ev tb1 tb2 cid1 idx2 cond callback rows s =
        (two_tables_scan_loop ev tb1 tb2 cid1 idx2 cond callback
           (filter (\<lambda>rm. driver_key tb1 cid1 rm \<noteq> None) rows) s)\<lparr>cache := c\<rparr>"
proof (induction rows arbitrary: s)
  case Nil
  have "\<exists>c. s = s\<lparr>cache := c\<rparr>" by (rule exI[of _ "cache s"]) simp
  then show ?case by simp
next
  case (Cons rm rows)
  let ?loop = "two_tables_scan_loop ev tb1 tb2 cid1 idx2 cond callback"
  let ?keep = "filter (\<lambda>rm. driver_key tb1 cid1 rm \<noteq> None)"
  show ?case
  proof (cases "driver_key tb1 cid1 rm = None")
    case False
    obtain returned s2 where p: "two_tables_probe_loop ev tb1 tb2 cond callback rm
        (idx2 (driver_key tb1 cid1 rm)) (cache_record tb1 rm s) = (returned, s2)"
      by (cases "two_tables_probe_loop ev tb1 tb2 cond callback rm
        (idx2 (driver_key tb1 cid1 rm)) (cache_record tb1 rm s)")
    show ?thesis
    proof (cases returned)
      case True
      have "\<exists>c. s2 = s2\<lparr>cache := c\<rparr>" by (rule exI[of _ "cache s2"]) simp
      with False p True show ?thesis
        by (simp only: filter.simps two_tables_scan_loop_key if_False if_True split not_False_eq_True)
    next
      case r: False
      from Cons[of s2] False p r show ?thesis
        by (simp only: filter.simps two_tables_scan_loop_key if_False if_True split not_False_eq_True)
    qed
  next
    case True
    have step: "?loop (rm # rows) s = ?loop rows (cache_record tb1 rm s)"
      using True by (rule two_tables_scan_loop_null_key)
    from Cons[of "cache_record tb1 rm s"] obtain c where
      ih: "?loop rows (cache_record tb1 rm s) = (?loop (?keep rows) (cache_record tb1 rm s))\<lparr>cache := c\<rparr>"
      by blast
    show ?thesis
    proof (cases "?keep rows")
      case Nil
      have "(cache_record tb1 rm s)\<lparr>cache := c\<rparr> = s\<lparr>cache := c\<rparr>"
        by (simp add: cache_record_def)
      with ih Nil True step show ?thesis
        by (simp del: iter_state.update_convs) blast
    next
      case (Cons r rs)
      have "?loop (r # rs) (cache_record tb1 rm s) = ?loop (r # rs) s"
        by (rule two_tables_scan_loop_overwrite)
      with ih Cons True step show ?thesis
        by (simp del: two_tables_scan_loop.simps) blast
    qed
  qed
qed

lemma two_tables_scan_loop_index_cong:
  "(\<And>k. idx2 (Some k) = idx2' (Some k)) \<Longrightarrow>
     two_tables_scan_loop ev tb1 tb2 cid1 idx2 cond callback rows s =
     two_tables_scan_loop ev tb1 tb2 cid1 idx2' cond callback rows s"
proof (induction rows arbitrary: s)
  case Nil
  show ?case by simp
next
  case (Cons rm rows)
  show ?case
  proof (cases "driver_key tb1 cid1 rm")
    case None
    then have "driver_key tb1 cid1 rm = None" .
    then show ?thesis using Cons by (simp only: two_tables_scan_loop_null_key)
  next
    case (Some k)
    then have ne: "driver_key tb1 cid1 rm \<noteq> None" by simp
    have i: "idx2 (driver_key tb1 cid1 rm) = idx2' (driver_key tb1 cid1 rm)"
      using Cons.prems Some by simp
    have l: "two_tables_scan_loop ev tb1 tb2 cid1 idx2 cond callback rows x =
             two_tables_scan_loop ev tb1 tb2 cid1 idx2' cond callback rows x" for x
      using Cons.IH[OF Cons.prems] .
    show ?thesis unfolding two_tables_scan_loop_key[OF ne] i l ..
  qed
qed

text \<open>
  C10. In the two-table index join a driver record whose join-key column is null is
  only cached: the scan goes on with the next record. So the consumer state and the
  diagnostics of a scan are those of the scan over the records that have a key, and
  the scan never searches the index with a null key: two indexes that agree on all
  non-null keys give the same scan.
\<close>

theorem two_tables_skips_null_keys:
  "(driver_key tb1 cid1 rm = None \<longrightarrow>
      two_tables_scan_loop ev tb1 tb2 cid1 idx2 cond callback (rm # it) s =
      two_tables_scan_loop ev tb1 tb2 cid1 idx2 cond callback it (cache_record tb1 rm s))
   \<and> cst (two_tables_scan_loop ev tb1 tb2 cid1 idx2 cond callback rows s) =
       cst (two_tables_scan_loop ev tb1 tb2 cid1 idx2 cond callback
              (filter (\<lambda>rm. driver_key tb1 cid1 rm \<noteq> None) rows) s)
   \<and> msgs (two_tables_scan_loop ev tb1 tb2 cid1 idx2 cond callback rows s) =
       msgs (two_tables_scan_loop ev tb1 tb2 cid1 idx2 cond callback
              (filter (\<lambda>rm. driver_key tb1 cid1 rm \<noteq> None) rows) s)
   \<and> ((\<forall>k. idx2 (Some k) = idx2' (Some k)) \<longrightarrow>
        two_tables_scan_loop ev tb1 tb2 cid1 idx2 cond callback rows s =
        two_tables_scan_loop ev tb1 tb2 cid1 idx2' cond callback rows s)"
proof -
  obtain c where "two_tables_scan_loop ev tb1 tb2 cid1 idx2 cond callback rows s =
        (two_tables_scan_loop ev tb1 tb2 cid1 idx2 cond callback
           (filter (\<lambda>rm. driver_key tb1 cid1 rm \<noteq> None) rows) s)\<lparr>cache := c\<rparr>"
    using two_tables_scan_loop_skip_nulls by blast
  then have "cst (two_tables_scan_loop ev tb1 tb2 cid1 idx2 cond callback rows s) =
       cst (two_tables_scan_loop ev tb1 tb2 cid1 idx2 cond callback
              (filter (\<lambda>rm. driver_key tb1 cid1 rm \<noteq> None) rows) s)"
    and "msgs (two_tables_scan_loop ev tb1 tb2 cid1 idx2 cond callback rows s) =
       msgs (two_tables_scan_loop ev tb1 tb2 cid1 idx2 cond callback
              (filter (\<lambda>rm. driver_key tb1 cid1 rm \<noteq> None) rows) s)"
    by simp_all
  moreover have "driver_key tb1 cid1 rm = None \<longrightarrow>
      two_tables_scan_loop ev tb1 tb2 cid1 idx2 cond callback (rm # it) s =
      two_tables_scan_loop ev tb1 tb2 cid1 idx2 cond callback it (cache_record tb1 rm s)"
    using two_tables_scan_loop_null_key by blast
  moreover have "(\<forall>k. idx2 (Some k) = idx2' (Some k)) \<longrightarrow>
        two_tables_scan_loop ev tb1 tb2 cid1 idx2 cond callback rows s =
        two_tables_scan_loop ev tb1 tb2 cid1 idx2' cond callback rows s"
    using two_tables_scan_loop_index_cong[of idx2 idx2'] by blast
  ultimately show ?thesis by blast
qed

text \<open>The table \<open>A\<close> with a first record whose \<open>x\<close> is null.\<close>

definition ex_A_null :: "int table_manager" where
  "ex_A_null = ex_table ''A'' [ex_row 1 [None, Some 10], ex_row 2 [Some 2, Some 20]] (\<lambda>_. None)"

theorem two_tables_skips_null_keys_witness:
  "driver_key ex_A_null 0 (ex_row 1 [None, Some 10]) = None
   \<and> cst (two_tables_scan_loop ex_ev ex_A_null ex_B 0 (ex_index 0 ex_B_rows) (Some ex_join)
             count_callback [ex_row 1 [None, Some 10], ex_row 2 [Some 2, Some 20]] (ex_state 0)) = 1
   \<and> (\<forall>k. ex_index 0 ex_B_rows (Some k) = ex_index 0 ex_B_rows (Some k))"
  using two_tables_skips_null_keys[of ex_A_null 0 "ex_row 1 [None, Some 10]" ex_ev ex_B
      "ex_index 0 ex_B_rows" "Some ex_join" count_callback "[ex_row 2 [Some 2, Some 20]]" "ex_state 0"
      "[ex_row 1 [None, Some 10], ex_row 2 [Some 2, Some 20]]" "ex_index 0 ex_B_rows"]
  by (simp add: driver_key_def ex_defs ex_A_null_def count_callback_def cache_record_def
      get_cached_column_def eval_cond_def Let_def)

section \<open>Aggregates\<close>

text \<open>
  An evaluator whose column \<open>x\<close> has the runtime type the column \<open>y\<close> of the same record
  names: a float when \<open>y = 1\<close>, an int otherwise.
\<close>

definition ex_float :: "real \<Rightarrow> expression" where
  "ex_float a = \<lparr>ex_type = TERM_FLOAT, val_i = 0, val_f = a, val_b = False, val_s = []\<rparr>"

definition ex_eval_typed :: "int row_cache \<Rightarrow> expr_node_t option \<Rightarrow> string + expression" where
  "ex_eval_typed c e =
     (case e of
        None \<Rightarrow> Inl ''[Error] no expression.''
      | Some n \<Rightarrow>
          (case column_ref n of
             None \<Rightarrow> Inl ''[Error] unsupported expression.''
           | Some ref \<Rightarrow>
               (case c (cr_table ref) of
                  None \<Rightarrow> Inl ''[Error] no record.''
                | Some rm \<Rightarrow>
                    (case cells rm ! 0 of
                       None \<Rightarrow> Inl ''[Error] no value.''
                     | Some a \<Rightarrow>
                         if cells rm ! 1 = Some 1 then Inr (ex_float (real_of_int a))
                         else Inr (ex_int a)))))"

definition ex_ev_typed :: "int evaluator" where
  "ex_ev_typed = ex_ev\<lparr>eval := ex_eval_typed\<rparr>"

definition ex_fa :: float_arith where
  "ex_fa = \<lparr>float_add = (\<lambda>a b. a + b), float_div_int = (\<lambda>a n. a / real_of_int n),
            int_avg = (\<lambda>a n. real_of_int a / real_of_int n)\<rparr>"

definition ex_agg :: "operator_type \<Rightarrow> expr_node_t \<Rightarrow> expr_node_t" where
  "ex_agg opr e = ExprNode opr TERM_NONE (Some e) None None"

definition ex_select :: "string \<Rightarrow> expr_node_t \<Rightarrow> select_info_t" where
  "ex_select t e = \<lparr>si_tables = [t], si_exprs = [e], si_where = None\<rparr>"

text \<open>The table \<open>F\<close> holds the one float \<open>-1\<close>; the table \<open>M\<close> holds the int \<open>1\<close>, then the float \<open>2\<close>.\<close>

definition ex_F :: "int table_manager" where
  "ex_F = ex_table ''F'' [ex_row 1 [Some (- 1), Some 1]] (\<lambda>_. None)"

definition ex_M :: "int table_manager" where
  "ex_M = ex_table ''M'' [ex_row 1 [Some 1, Some 0], ex_row 2 [Some 2, Some 1]] (\<lambda>_. None)"

lemmas ex_agg_defs = ex_float_def ex_eval_typed_def ex_ev_typed_def ex_fa_def ex_agg_def
  ex_select_def ex_F_def ex_M_def

lemmas select_defs = select_rows_def select_rows_aggregate_def aggregate_callback_def
  aggregate_update_def aggregate_finish_def aggregate_init_def write_out_def put_msg_def
  iterate_def iterate_one_table_def cache_record_def

text \<open>
  C6. The accumulators start at \<^verbatim>\<open>INT_MAX\<close> and \<^verbatim>\<open>FLT_MAX\<close> for MIN, at \<^verbatim>\<open>INT_MIN\<close> and
  \<^verbatim>\<open>numeric_limits<float>::min()\<close> for MAX, and at \<open>0\<close> otherwise. The float start of
  MAX is the smallest positive float, not the lowest one: the maximum of the one float
  \<open>-1\<close> of the table \<open>F\<close> is printed as \<open>2^-126\<close>.
\<close>

theorem float_max_of_negative:
  "map_sum id (\<lambda>s. output_file (cst s))
     (select_rows ex_fa ex_ev_typed (Some [ex_F]) (ex_select ''F'' (ex_agg OPERATOR_MAX (ex_ref ''F'' ''x'')))
        uninit Map.empty)
   = Inr [OutHeader [''?''], OutFloat (1 / 2 ^ 126), OutEnd]"
  by (simp add: select_defs ex_agg_defs ex_defs float_min_def)

text \<open>
  The type tag of the aggregate is assigned at every consumer call. In the table \<open>M\<close>
  the first record is the int \<open>1\<close> and the last one the float \<open>2\<close>: the sum is printed
  from the float accumulator, which holds \<open>2\<close>, not from the int accumulator.
\<close>

theorem aggregate_type_of_first_row_counterexample:
  "map_sum id (\<lambda>s. output_file (cst s))
     (select_rows ex_fa ex_ev_typed (Some [ex_M]) (ex_select ''M'' (ex_agg OPERATOR_SUM (ex_ref ''M'' ''x'')))
        ((\<lambda>_. 0), 0) Map.empty)
   = Inr [OutHeader [''?''], OutFloat 2, OutEnd]
   \<and> map_sum id ex_type (ex_eval_typed [''M'' \<mapsto> ex_row 1 [Some 1, Some 0]] (Some (ex_ref ''M'' ''x'')))
     = Inr TERM_INT"
  by (simp add: select_defs ex_agg_defs ex_defs)

lemma iterate_one_table_loop_fold:
  assumes pass: "\<And>rm c. rm \<in> set rows \<Longrightarrow>
      (case cond of None \<Rightarrow> Inr True | Some w \<Rightarrow> eval_cond ev (c(get_table_name tb \<mapsto> rm)) cond) = Inr (p rm)"
    and cb: "\<And>rm s. rm \<in> set rows \<Longrightarrow> p rm \<Longrightarrow>
      callback tb rm (rid rm) (cache_record tb rm s) = (True, g rm (cache_record tb rm s))"
  shows "iterate_one_table_loop ev tb cond callback rows s =
         fold (\<lambda>rm s. if p rm then g rm (cache_record tb rm s) else cache_record tb rm s) rows s"
  using assms
proof (induction rows arbitrary: s)
  case Nil
  show ?case by simp
next
  case (Cons rm rows)
  have p: "(case cond of None \<Rightarrow> Inr True | Some w \<Rightarrow> eval_cond ev (cache (cache_record tb rm s)) cond) = Inr (p rm)"
    using Cons.prems(1)[of rm "cache s"] by (cases cond) (simp_all add: cache_record_def)
  have ih: "iterate_one_table_loop ev tb cond callback rows x =
         fold (\<lambda>rm s. if p rm then g rm (cache_record tb rm s) else cache_record tb rm s) rows x" for x
    using Cons.IH[of x] Cons.prems by simp
  show ?case
  proof (cases "p rm")
    case True
    with Cons.prems(2)[of rm s] have "callback tb rm (rid rm) (cache_record tb rm s) = (True, g rm (cache_record tb rm s))"
      by simp
    with p True ih show ?thesis by (simp add: Let_def)
  next
    case False
    with p ih show ?thesis by (simp add: Let_def)
  qed
qed

text \<open>What one call of the aggregate consumer does to the captured variables.\<close>

definition aggregate_seen :: "float_arith \<Rightarrow> operator_type \<Rightarrow> expression \<Rightarrow> 'v select_state \<Rightarrow> 'v select_state" where
  "aggregate_seen fa opr ret a =
     (let a1 = aggregate_update fa opr ret (a\<lparr>agg_type := ex_type ret\<rparr>)
      in a1\<lparr>counter := counter a1 + 1\<rparr>)"

lemma aggregate_callback_seen:
  "op expr \<noteq> OPERATOR_COUNT \<Longrightarrow> eval ev (cache s) (left expr) = Inr ret \<Longrightarrow>
     aggregate_callback fa ev expr tables recs rids s = (True, s\<lparr>cst := aggregate_seen fa (op expr) ret (cst s)\<rparr>)"
  by (simp add: aggregate_callback_def aggregate_seen_def Let_def)

lemma aggregate_update_fields:
  "agg_type (aggregate_update fa opr ret a) = agg_type a"
  "counter (aggregate_update fa opr ret a) = counter a"
  "output_file (aggregate_update fa opr ret a) = output_file a"
  by (simp_all add: aggregate_update_def)

lemma aggregate_seen_fields:
  "agg_type (aggregate_seen fa opr ret a) = ex_type ret"
  "counter (aggregate_seen fa opr ret a) = counter a + 1"
  "output_file (aggregate_seen fa opr ret a) = output_file a"
  by (simp_all add: aggregate_seen_def Let_def aggregate_update_fields)

lemma aggregate_update_accumulators:
  "agg_val_i a = agg_val_i b \<Longrightarrow> agg_val_f a = agg_val_f b \<Longrightarrow>
     agg_val_i (aggregate_update fa opr ret a) = agg_val_i (aggregate_update fa opr ret b)
     \<and> agg_val_f (aggregate_update fa opr ret a) = agg_val_f (aggregate_update fa opr ret b)"
  by (simp add: aggregate_update_def)

lemma fold_aggregate_seen:
  "vals \<noteq> [] \<Longrightarrow>
     agg_type (fold (aggregate_seen fa opr) vals a) = ex_type (last vals)
     \<and> counter (fold (aggregate_seen fa opr) vals a) = counter a + int (length vals)
     \<and> output_file (fold (aggregate_seen fa opr) vals a) = output_file a"
proof (induction vals arbitrary: a)
  case Nil
  then show ?case by simp
next
  case (Cons v vals)
  show ?case
  proof (cases "vals = []")
    case True
    then show ?thesis by (simp add: aggregate_seen_fields)
  next
    case False
    with Cons.IH[of "aggregate_seen fa opr v a"] show ?thesis
      by (simp add: aggregate_seen_fields)
  qed
qed

lemma fold_aggregate_seen_accumulators:
  "agg_val_i a = agg_val_i b \<Longrightarrow> agg_val_f a = agg_val_f b \<Longrightarrow>
     agg_val_i (fold (aggregate_seen fa opr) vals a) = agg_val_i (fold (aggregate_update fa opr) vals b)
     \<and> agg_val_f (fold (aggregate_seen fa opr) vals a) = agg_val_f (fold (aggregate_update fa opr) vals b)"
proof (induction vals arbitrary: a b)
  case Nil
  then show ?case by simp
next
  case (Cons v vals)
  have "agg_val_i (aggregate_seen fa opr v a) = agg_val_i (aggregate_update fa opr v b)
      \<and> agg_val_f (aggregate_seen fa opr v a) = agg_val_f (aggregate_update fa opr v b)"
    using Cons.prems aggregate_update_accumulators[of "a\<lparr>agg_type := ex_type v\<rparr>" b fa opr v]
    by (simp add: aggregate_seen_def Let_def)
  with Cons.IH[of "aggregate_seen fa opr v a" "aggregate_update fa opr v b"] show ?case by simp
qed

lemma cache_record_cst:
  "cache_record tb rm (s\<lparr>cst := a\<rparr>) = (cache_record tb rm s)\<lparr>cst := a\<rparr>"
  by (simp add: cache_record_def)

lemma fold_cache_record_cst:
  "fold (cache_record tb) rows (s\<lparr>cst := a\<rparr>) = (fold (cache_record tb) rows s)\<lparr>cst := a\<rparr>"
  by (induction rows arbitrary: s) (simp_all add: cache_record_cst)

lemma fold_cached_seen:
  "fold (\<lambda>rm s. if p rm then (cache_record tb rm s)\<lparr>cst := h (f rm) (cst (cache_record tb rm s))\<rparr>
                  else cache_record tb rm s) rows s
   = (fold (cache_record tb) rows s)\<lparr>cst := fold h (map f (filter p rows)) (cst s)\<rparr>"
proof (induction rows arbitrary: s)
  case Nil
  show ?case by simp
next
  case (Cons rm rows)
  have "fold (cache_record tb) rows ((cache_record tb rm s)\<lparr>cst := a\<rparr>)\<lparr>cst := b\<rparr>
        = fold (cache_record tb) rows (cache_record tb rm s)\<lparr>cst := b\<rparr>" for a b
    by (simp add: fold_cache_record_cst)
  moreover have "cst (cache_record tb rm s) = cst s" by (simp add: cache_record_def)
  ultimately show ?case
    by (simp add: Cons)
qed

lemma fold_cache_record_fields:
  "msgs (fold (cache_record tb) rows s) = msgs s" "cst (fold (cache_record tb) rows s) = cst s"
  by (induction rows arbitrary: s) (simp_all add: cache_record_def)

definition aggregate_item :: "float_arith \<Rightarrow> operator_type \<Rightarrow> term_type_t \<Rightarrow> 'v select_state \<Rightarrow> 'v out_item" where
  "aggregate_item fa opr T a =
     (if opr = OPERATOR_AVG
      then OutFloat (if T = TERM_INT then int_avg fa (agg_val_i a) (counter a)
                     else float_div_int fa (agg_val_f a) (counter a))
      else if T = TERM_FLOAT then OutFloat (agg_val_f a)
      else OutInt (agg_val_i a))"

lemma aggregate_finish_item:
  "op expr \<noteq> OPERATOR_COUNT \<Longrightarrow> agg_type (cst s) \<in> {TERM_INT, TERM_FLOAT} \<Longrightarrow>
     aggregate_finish fa expr s =
       write_out OutEnd ((write_out (aggregate_item fa (op expr) (agg_type (cst s)) (cst s)) s)
         \<lparr>msgs := msgs s @ [RowsSelected (counter (cst s))]\<rparr>)"
  by (auto simp: aggregate_finish_def aggregate_item_def write_out_def Let_def)

text \<open>
  C8. For SUM, AVG, MIN and MAX over one table, when the predicate evaluates on every
  record and the inner expression evaluates to an int or a float on every passing
  record, of which there is at least one: the type tag the result is printed by is the
  runtime type of the last passing record, the row count is the number of passing
  records, and the value printed is taken from the accumulator of that type (for AVG,
  divided by the count).
\<close>

theorem aggregate_type_of_last_row:
  assumes opr: "op expr \<in> {OPERATOR_SUM, OPERATOR_AVG, OPERATOR_MIN, OPERATOR_MAX}"
    and pass: "\<forall>rm\<in>set (records tb). \<forall>c.
        (case si_where info of None \<Rightarrow> Inr True
         | Some w \<Rightarrow> eval_cond ev (c(get_table_name tb \<mapsto> rm)) (si_where info)) = Inr (p rm)"
    and vals: "\<forall>rm\<in>set (records tb). p rm \<longrightarrow>
        (\<forall>c. eval ev (c(get_table_name tb \<mapsto> rm)) (left expr) = Inr (f rm))
        \<and> ex_type (f rm) \<in> {TERM_INT, TERM_FLOAT}"
    and ne: "filter p (records tb) \<noteq> []"
  shows "\<exists>s'. select_rows_aggregate fa ev info [tb] [expr] uninit s = Inr s'
           \<and> agg_type (cst s') = ex_type (f (last (filter p (records tb))))
           \<and> counter (cst s') = int (length (filter p (records tb)))
           \<and> output_file (cst s') =
               output_file (cst s) @
                 [aggregate_item fa (op expr) (ex_type (f (last (filter p (records tb))))) (cst s'), OutEnd]"
proof -
  let ?rows = "records tb"
  let ?vals = "map f (filter p ?rows)"
  let ?a0 = "(cst s)\<lparr>agg_val_i := fst (aggregate_init (op expr)),
                     agg_val_f := snd (aggregate_init (op expr)),
                     agg_type := TERM_NONE, counter := 0\<rparr>"
  let ?s0 = "s\<lparr>cst := ?a0\<rparr>"
  let ?cb = "\<lambda>t rm rid. aggregate_callback fa ev expr [tb] [Some rm] [rid]"
  let ?g = "\<lambda>rm x. x\<lparr>cst := aggregate_seen fa (op expr) (f rm) (cst x)\<rparr>"
  from opr have nc: "op expr \<noteq> OPERATOR_COUNT" by auto
  have cb: "?cb tb rm (rid rm) (cache_record tb rm x) = (True, ?g rm (cache_record tb rm x))"
    if "rm \<in> set ?rows" "p rm" for rm x
  proof -
    from vals that have "eval ev (cache (cache_record tb rm x)) (left expr) = Inr (f rm)"
      by (simp add: cache_record_def)
    with nc show ?thesis by (simp add: aggregate_callback_seen)
  qed
  have loop: "iterate_one_table_loop ev tb (si_where info) ?cb ?rows ?s0 =
      fold (\<lambda>rm x. if p rm then ?g rm (cache_record tb rm x) else cache_record tb rm x) ?rows ?s0"
    by (rule iterate_one_table_loop_fold) (use pass cb in auto)
  define s1 where "s1 = iterate_one_table_loop ev tb (si_where info) ?cb ?rows ?s0"
  have s1: "s1 = (fold (cache_record tb) ?rows ?s0)\<lparr>cst := fold (aggregate_seen fa (op expr)) ?vals ?a0\<rparr>"
    unfolding s1_def loop by (simp add: fold_cached_seen)
  from ne have vne: "?vals \<noteq> []" by simp
  have last: "last ?vals = f (last (filter p ?rows))"
    using ne by (simp add: last_map)
  have fields: "agg_type (cst s1) = ex_type (f (last (filter p ?rows)))"
      "counter (cst s1) = int (length (filter p ?rows))"
      "output_file (cst s1) = output_file (cst s)"
      "msgs s1 = msgs s"
    using fold_aggregate_seen[OF vne, of fa "op expr" ?a0] last
    by (simp_all add: s1 fold_cache_record_fields)
  have "last (filter p ?rows) \<in> set ?rows \<and> p (last (filter p ?rows))"
    using last_in_set[OF ne] by auto
  with vals have T: "agg_type (cst s1) \<in> {TERM_INT, TERM_FLOAT}"
    unfolding fields by blast
  have run: "select_rows_aggregate fa ev info [tb] [expr] uninit s = Inr (aggregate_finish fa expr s1)"
    by (simp add: select_rows_aggregate_def iterate_def iterate_one_table_def s1_def Let_def)
  show ?thesis
    unfolding run aggregate_finish_item[OF nc T]
    by (simp add: write_out_def fields aggregate_item_def)
qed

text \<open>In the table \<open>M\<close> the last record is a float: the sum printed is the float accumulator.\<close>

theorem aggregate_type_of_last_row_witness:
  "OPERATOR_SUM \<in> {OPERATOR_SUM, OPERATOR_AVG, OPERATOR_MIN, OPERATOR_MAX}
   \<and> filter (\<lambda>_. True) (records ex_M) \<noteq> []
   \<and> (\<exists>s'. select_rows_aggregate ex_fa ex_ev_typed (ex_select ''M'' (ex_agg OPERATOR_SUM (ex_ref ''M'' ''x'')))
              [ex_M] [ex_agg OPERATOR_SUM (ex_ref ''M'' ''x'')] ((\<lambda>_. 0), 0)
              \<lparr>cache = Map.empty, msgs = [],
               cst = \<lparr>output_file = [], counter = 0, agg_val_i = 0, agg_val_f = 0, agg_type = TERM_NONE\<rparr>\<rparr>
            = Inr s'
          \<and> agg_type (cst s') = TERM_FLOAT
          \<and> output_file (cst s') = [OutFloat 2, OutEnd])"
proof -
  let ?e = "ex_agg OPERATOR_SUM (ex_ref ''M'' ''x'')"
  let ?f = "\<lambda>rm. if cells rm ! 1 = Some 1 then ex_float (real_of_int (the (cells rm ! 0))) else ex_int (the (cells rm ! 0))"
  let ?s = "\<lparr>cache = Map.empty, msgs = [],
               cst = \<lparr>output_file = [], counter = 0, agg_val_i = 0, agg_val_f = 0, agg_type = TERM_NONE\<rparr>\<rparr> :: (int, int select_state) iter_state"
  have 1: "op ?e \<in> {OPERATOR_SUM, OPERATOR_AVG, OPERATOR_MIN, OPERATOR_MAX}"
    by (simp add: ex_agg_def)
  have 2: "\<forall>rm\<in>set (records ex_M). \<forall>c.
        (case si_where (ex_select ''M'' ?e) of None \<Rightarrow> Inr True
         | Some w \<Rightarrow> eval_cond ex_ev_typed (c(get_table_name ex_M \<mapsto> rm)) (si_where (ex_select ''M'' ?e))) = Inr ((\<lambda>_. True) rm)"
    by (simp add: ex_select_def)
  have 3: "\<forall>rm\<in>set (records ex_M). (\<lambda>_. True) rm \<longrightarrow>
        (\<forall>c. eval ex_ev_typed (c(get_table_name ex_M \<mapsto> rm)) (left ?e) = Inr (?f rm))
        \<and> ex_type (?f rm) \<in> {TERM_INT, TERM_FLOAT}"
    by (simp add: ex_agg_defs ex_defs)
  have 4: "filter (\<lambda>_. True) (records ex_M) \<noteq> []"
    by (simp add: ex_M_def ex_table_def)
  from aggregate_type_of_last_row[OF 1 2 3 4, of ex_fa "((\<lambda>_. 0), 0)" ?s]
  obtain s' where s': "select_rows_aggregate ex_fa ex_ev_typed (ex_select ''M'' ?e) [ex_M] [?e] ((\<lambda>_. 0), 0) ?s = Inr s'"
    and t: "agg_type (cst s') = ex_type (?f (last (filter (\<lambda>_. True) (records ex_M))))"
    and o: "output_file (cst s') = output_file (cst ?s) @
                 [aggregate_item ex_fa (op ?e) (ex_type (?f (last (filter (\<lambda>_. True) (records ex_M))))) (cst s'), OutEnd]"
    by blast
  have s'v: "agg_val_f (cst s') = 2"
    using s' by (auto simp: select_defs ex_agg_defs ex_defs)
  have "agg_type (cst s') = TERM_FLOAT" using t by (simp add: ex_agg_defs ex_defs)
  moreover have "output_file (cst s') = [OutFloat 2, OutEnd]"
    using o s'v by (simp add: aggregate_item_def ex_agg_defs ex_defs)
  ultimately show ?thesis using 1 4 s' by (simp add: ex_agg_def)
qed

section \<open>INSERT: which tuples are counted\<close>

lemma insert_set_columns_ok:
  assumes "\<forall>(it, e)\<in>set cols. \<exists>v. eval ev c (Some e) = Inr v \<and> type_compatible ops (get_column_type tb it) v"
  shows "\<exists>succ t1. insert_set_columns ev ops tb c cols t = Inr (succ, t1)"
  using assms
proof (induction cols arbitrary: t)
  case Nil
  show ?case by auto
next
  case (Cons ie cols)
  obtain it e where ie: "ie = (it, e)" by (cases ie)
  from Cons.prems ie obtain v where v: "eval ev c (Some e) = Inr v"
      "type_compatible ops (get_column_type tb it) v"
    by auto
  obtain ok t1 where s: "set_temp_record ops t it (expr_to_db ops v (column_to_term ops (get_column_type tb it))) = (ok, t1)"
    by (cases "set_temp_record ops t it (expr_to_db ops v (column_to_term ops (get_column_type tb it)))")
  from Cons.prems have "\<forall>(it, e)\<in>set cols. \<exists>v. eval ev c (Some e) = Inr v \<and> type_compatible ops (get_column_type tb it) v"
    by simp
  from Cons.IH[OF this, of t1] ie v s show ?case
    by (cases ok) (auto simp: Let_def)
qed

text \<open>The tuples of the arity of the column list.\<close>

definition right_arity :: "int list \<Rightarrow> expr_node_t list list \<Rightarrow> expr_node_t list list" where
  "right_arity cols_id list = filter (\<lambda>expr_list. length expr_list = length cols_id) list"

lemma insert_rows_loop_counts:
  assumes "\<forall>expr_list\<in>set list. length expr_list = length cols_id \<longrightarrow>
             (\<forall>(it, e)\<in>set (zip cols_id expr_list).
                \<exists>v. eval ev c (Some e) = Inr v \<and> type_compatible ops (get_column_type tb it) v)"
  shows "\<exists>t' succ fail.
           insert_rows_loop ev ops tb c cols_id list (t, count_succ, count_fail, ms) =
             \<lparr>ir_msgs = ms @ replicate (length list - length (right_arity cols_id list))
                                (Text ''[Error] column size not equal.'')
                           @ [RowsInserted succ fail],
              ir_table = t', ir_summary = Some (succ, fail)\<rparr>
           \<and> count_succ \<le> succ \<and> count_fail \<le> fail
           \<and> (succ - count_succ) + (fail - count_fail) = int (length (right_arity cols_id list))"
  using assms
proof (induction list arbitrary: t count_succ count_fail ms)
  case Nil
  show ?case by (simp add: right_arity_def)
next
  case (Cons expr_list list)
  have rest: "\<forall>expr_list\<in>set list. length expr_list = length cols_id \<longrightarrow>
             (\<forall>(it, e)\<in>set (zip cols_id expr_list).
                \<exists>v. eval ev c (Some e) = Inr v \<and> type_compatible ops (get_column_type tb it) v)"
    using Cons.prems by simp
  have le: "length (right_arity cols_id list) \<le> length list"
    by (simp add: right_arity_def)
  show ?case
  proof (cases "length expr_list = length cols_id")
    case False
    from Cons.IH[OF rest, of "init_temp_record ops t" count_succ count_fail
        "ms @ [Text ''[Error] column size not equal.'']"]
    obtain t' succ fail where
      "insert_rows_loop ev ops tb c cols_id list
         (init_temp_record ops t, count_succ, count_fail, ms @ [Text ''[Error] column size not equal.'']) =
             \<lparr>ir_msgs = (ms @ [Text ''[Error] column size not equal.''])
                           @ replicate (length list - length (right_arity cols_id list))
                                (Text ''[Error] column size not equal.'')
                           @ [RowsInserted succ fail],
              ir_table = t', ir_summary = Some (succ, fail)\<rparr>"
      "count_succ \<le> succ" "count_fail \<le> fail"
      "(succ - count_succ) + (fail - count_fail) = int (length (right_arity cols_id list))"
      by blast
    moreover have "right_arity cols_id (expr_list # list) = right_arity cols_id list"
      using False by (simp add: right_arity_def)
    moreover have "length (expr_list # list) - length (right_arity cols_id list)
        = Suc (length list - length (right_arity cols_id list))"
      using le by simp
    ultimately show ?thesis using False
      by (simp add: Let_def replicate_append_same)
  next
    case True
    with Cons.prems have "\<forall>(it, e)\<in>set (zip cols_id expr_list).
                \<exists>v. eval ev c (Some e) = Inr v \<and> type_compatible ops (get_column_type tb it) v"
      by simp
    from insert_set_columns_ok[OF this, of "init_temp_record ops t"]
    obtain succ0 t2 where sc: "insert_set_columns ev ops tb c (zip cols_id expr_list) (init_temp_record ops t) = Inr (succ0, t2)"
      by blast
    obtain succ1 t3 where c: "(if succ0 then (case insert_record ops t2 of (new_rid, t3) \<Rightarrow> (new_rid > 0, t3))
                          else (False, t2)) = (succ1, t3)"
      by (cases "(if succ0 then (case insert_record ops t2 of (new_rid, t3) \<Rightarrow> (new_rid > 0, t3))
                          else (False, t2))")
    have step: "insert_rows_loop ev ops tb c cols_id (expr_list # list) (t, count_succ, count_fail, ms) =
        insert_rows_loop ev ops tb c cols_id list
          (t3, count_succ + (if succ1 then 1 else 0), count_fail + 1 - (if succ1 then 1 else 0), ms)"
      using True sc c by (simp add: Let_def)
    from Cons.IH[OF rest, of t3 "count_succ + (if succ1 then 1 else 0)"
        "count_fail + 1 - (if succ1 then 1 else 0)" ms]
    obtain t' succ fail where
      "insert_rows_loop ev ops tb c cols_id list
          (t3, count_succ + (if succ1 then 1 else 0), count_fail + 1 - (if succ1 then 1 else 0), ms) =
             \<lparr>ir_msgs = ms @ replicate (length list - length (right_arity cols_id list))
                                (Text ''[Error] column size not equal.'')
                           @ [RowsInserted succ fail],
              ir_table = t', ir_summary = Some (succ, fail)\<rparr>"
      "count_succ + (if succ1 then 1 else 0) \<le> succ" "count_fail + 1 - (if succ1 then 1 else 0) \<le> fail"
      "(succ - (count_succ + (if succ1 then 1 else 0))) + (fail - (count_fail + 1 - (if succ1 then 1 else 0)))
         = int (length (right_arity cols_id list))"
      by blast
    moreover have "right_arity cols_id (expr_list # list) = expr_list # right_arity cols_id list"
      using True by (simp add: right_arity_def)
    ultimately show ?thesis unfolding step
      by (cases succ1) auto
  qed
qed

text \<open>
  The value that the inner loop writes for one column: the expression evaluates and
  its value is compatible with the type of the column. \<open>None\<close> is a value that fails.
\<close>

definition good_value ::
  "'v evaluator \<Rightarrow> ('t, 'b) insert_ops \<Rightarrow> 'v table_manager \<Rightarrow> 'v row_cache
     \<Rightarrow> int \<times> expr_node_t \<Rightarrow> (int \<times> 'b) option" where
  "good_value ev ops tb c = (\<lambda>(it, e).
     case eval ev c (Some e) of
       Inl msg \<Rightarrow> None
     | Inr v \<Rightarrow>
         if type_compatible ops (get_column_type tb it) v
         then Some (it, expr_to_db ops v (column_to_term ops (get_column_type tb it)))
         else None)"

text \<open>
  The writes of the values \<open>ws\<close> into the temp record, in order, up to the first one
  that the temp record refuses: the flag tells whether all of them were accepted.
\<close>

fun write_all :: "('t, 'b) insert_ops \<Rightarrow> (int \<times> 'b) list \<Rightarrow> 't \<Rightarrow> bool \<times> 't" where
  "write_all ops [] t = (True, t)"
| "write_all ops ((it, b) # ws) t =
     (case set_temp_record ops t it b of
        (ok, t1) \<Rightarrow> if \<not> ok then (False, t1) else write_all ops ws t1)"

text \<open>
  The inner loop over values that are all good is the sequence of their writes; after
  good values that are all accepted it goes on with the rest of the tuple, and after a
  refused one it ends without reading the rest.
\<close>

lemma insert_set_columns_prefix:
  "those (map (good_value ev ops tb c) pre) = Some ws \<Longrightarrow>
   insert_set_columns ev ops tb c (pre @ post) t =
     (case write_all ops ws t of
        (True, t2) \<Rightarrow> insert_set_columns ev ops tb c post t2
      | (False, t2) \<Rightarrow> Inr (False, t2))"
proof (induction pre arbitrary: ws t)
  case Nil
  then show ?case by simp
next
  case (Cons ie pre)
  obtain it e where ie: "ie = (it, e)" by (cases ie)
  from Cons.prems ie obtain w ws' where w: "good_value ev ops tb c (it, e) = Some w"
    and ws': "those (map (good_value ev ops tb c) pre) = Some ws'" and ws: "ws = w # ws'"
    by (auto split: option.splits)
  from w obtain v where v: "eval ev c (Some e) = Inr v"
    "type_compatible ops (get_column_type tb it) v"
    "w = (it, expr_to_db ops v (column_to_term ops (get_column_type tb it)))"
    by (auto simp: good_value_def split: sum.splits if_splits)
  obtain ok t1 where s: "set_temp_record ops t it (expr_to_db ops v (column_to_term ops (get_column_type tb it))) = (ok, t1)"
    by (cases "set_temp_record ops t it (expr_to_db ops v (column_to_term ops (get_column_type tb it)))")
  show ?case
  proof (cases ok)
    case True
    with Cons.IH[OF ws', of t1] ie v s ws show ?thesis by (simp add: Let_def)
  next
    case False
    with ie v s ws show ?thesis by (simp add: Let_def)
  qed
qed

lemma insert_set_columns_good:
  "those (map (good_value ev ops tb c) cols) = Some ws \<Longrightarrow>
   insert_set_columns ev ops tb c cols t = Inr (write_all ops ws t)"
  using insert_set_columns_prefix[of ev ops tb c cols ws "[]" t]
  by (cases "write_all ops ws t") (auto split: bool.splits)

lemma insert_set_columns_bad:
  assumes "those (map (good_value ev ops tb c) pre) = Some ws"
    and "write_all ops ws t = (True, t2)"
  shows "eval ev c (Some e) = Inl msg \<Longrightarrow>
           insert_set_columns ev ops tb c (pre @ (it, e) # post) t = Inl (msg, t2)"
    and "eval ev c (Some e) = Inr v \<Longrightarrow> \<not> type_compatible ops (get_column_type tb it) v \<Longrightarrow>
           insert_set_columns ev ops tb c (pre @ (it, e) # post) t
             = Inl (''[Error] incompatible type.'', t2)"
  using insert_set_columns_prefix[OF assms(1), of "(it, e) # post" t] assms(2)
  by (simp_all add: Let_def)

lemma insert_set_columns_refused:
  assumes "those (map (good_value ev ops tb c) pre) = Some ws"
    and "write_all ops ws t = (False, t2)"
  shows "insert_set_columns ev ops tb c (pre @ post) t = Inr (False, t2)"
  using insert_set_columns_prefix[OF assms(1), of post t] assms(2) by simp

text \<open>
  C7. A tuple of the wrong arity gets a diagnostic and is skipped without being
  counted. In a tuple of the right arity the values are read in order. The first value
  reached that does not evaluate or is not type-compatible, at whatever position, after
  values that were all written, ends the statement at once: no later tuple is processed
  and no summary is printed. A value that the temp record refuses, at whatever
  position, ends the tuple without reading the values after it; the tuple is counted as
  a failure and the loop goes on with the next tuple. A tuple whose values are all
  written is committed, counted as a success or, when the commit fails, as a failure,
  and the loop goes on. When every value of every tuple of the right arity evaluates to
  a compatible value, the summary is printed, and its two counts add up to the number
  of tuples of the right arity.
\<close>

theorem insert_rows_counts_and_stops:
  "(length expr_list \<noteq> length cols_id \<longrightarrow>
      insert_rows_loop ev ops tb c cols_id (expr_list # list) (t, count_succ, count_fail, ms) =
      insert_rows_loop ev ops tb c cols_id list
        (init_temp_record ops t, count_succ, count_fail, ms @ [Text ''[Error] column size not equal.'']))
   \<and> (length expr_list = length cols_id
        \<and> zip cols_id expr_list = pre @ (it, e) # post
        \<and> those (map (good_value ev ops tb c) pre) = Some ws
        \<and> write_all ops ws (init_temp_record ops t) = (True, t2)
        \<and> eval ev c (Some e) = Inl msg \<longrightarrow>
      insert_rows_loop ev ops tb c cols_id (expr_list # list) (t, count_succ, count_fail, ms) =
      \<lparr>ir_msgs = ms @ [Text msg], ir_table = t2, ir_summary = None\<rparr>)
   \<and> (length expr_list = length cols_id
        \<and> zip cols_id expr_list = pre @ (it, e) # post
        \<and> those (map (good_value ev ops tb c) pre) = Some ws
        \<and> write_all ops ws (init_temp_record ops t) = (True, t2)
        \<and> eval ev c (Some e) = Inr v \<and> \<not> type_compatible ops (get_column_type tb it) v \<longrightarrow>
      insert_rows_loop ev ops tb c cols_id (expr_list # list) (t, count_succ, count_fail, ms) =
      \<lparr>ir_msgs = ms @ [Text ''[Error] incompatible type.''], ir_table = t2, ir_summary = None\<rparr>)
   \<and> (length expr_list = length cols_id
        \<and> zip cols_id expr_list = pre @ post
        \<and> those (map (good_value ev ops tb c) pre) = Some ws
        \<and> write_all ops ws (init_temp_record ops t) = (False, t2) \<longrightarrow>
      insert_rows_loop ev ops tb c cols_id (expr_list # list) (t, count_succ, count_fail, ms) =
      insert_rows_loop ev ops tb c cols_id list (t2, count_succ, count_fail + 1, ms))
   \<and> (length expr_list = length cols_id
        \<and> those (map (good_value ev ops tb c) (zip cols_id expr_list)) = Some ws
        \<and> write_all ops ws (init_temp_record ops t) = (True, t2)
        \<and> insert_record ops t2 = (new_rid, t3) \<longrightarrow>
      insert_rows_loop ev ops tb c cols_id (expr_list # list) (t, count_succ, count_fail, ms) =
      insert_rows_loop ev ops tb c cols_id list
        (t3, if new_rid > 0 then count_succ + 1 else count_succ,
             if new_rid > 0 then count_fail else count_fail + 1, ms))
   \<and> ((\<forall>expr_list\<in>set tuples. length expr_list = length cols_id \<longrightarrow>
          (\<forall>(it, e)\<in>set (zip cols_id expr_list).
             \<exists>v. eval ev c (Some e) = Inr v \<and> type_compatible ops (get_column_type tb it) v)) \<longrightarrow>
      (\<exists>t' succ fail.
           insert_rows_loop ev ops tb c cols_id tuples (t, count_succ, count_fail, ms) =
             \<lparr>ir_msgs = ms @ replicate (length tuples - length (right_arity cols_id tuples))
                                (Text ''[Error] column size not equal.'')
                           @ [RowsInserted succ fail],
              ir_table = t', ir_summary = Some (succ, fail)\<rparr>
           \<and> count_succ \<le> succ \<and> count_fail \<le> fail
           \<and> (succ - count_succ) + (fail - count_fail) = int (length (right_arity cols_id tuples))))"
proof (intro conjI impI)
  show "\<exists>t' succ fail.
           insert_rows_loop ev ops tb c cols_id tuples (t, count_succ, count_fail, ms) =
             \<lparr>ir_msgs = ms @ replicate (length tuples - length (right_arity cols_id tuples))
                                (Text ''[Error] column size not equal.'')
                           @ [RowsInserted succ fail],
              ir_table = t', ir_summary = Some (succ, fail)\<rparr>
           \<and> count_succ \<le> succ \<and> count_fail \<le> fail
           \<and> (succ - count_succ) + (fail - count_fail) = int (length (right_arity cols_id tuples))"
    if "\<forall>expr_list\<in>set tuples. length expr_list = length cols_id \<longrightarrow>
          (\<forall>(it, e)\<in>set (zip cols_id expr_list).
             \<exists>v. eval ev c (Some e) = Inr v \<and> type_compatible ops (get_column_type tb it) v)"
    using that by (rule insert_rows_loop_counts)
next
  assume a: "length expr_list = length cols_id
        \<and> zip cols_id expr_list = pre @ (it, e) # post
        \<and> those (map (good_value ev ops tb c) pre) = Some ws
        \<and> write_all ops ws (init_temp_record ops t) = (True, t2)
        \<and> eval ev c (Some e) = Inl msg"
  then have "insert_set_columns ev ops tb c (zip cols_id expr_list) (init_temp_record ops t) = Inl (msg, t2)"
    using insert_set_columns_bad(1)[of ev ops tb c pre ws "init_temp_record ops t" t2 e msg it post]
    by simp
  with a show "insert_rows_loop ev ops tb c cols_id (expr_list # list) (t, count_succ, count_fail, ms) =
      \<lparr>ir_msgs = ms @ [Text msg], ir_table = t2, ir_summary = None\<rparr>"
    by (simp add: Let_def)
next
  assume a: "length expr_list = length cols_id
        \<and> zip cols_id expr_list = pre @ (it, e) # post
        \<and> those (map (good_value ev ops tb c) pre) = Some ws
        \<and> write_all ops ws (init_temp_record ops t) = (True, t2)
        \<and> eval ev c (Some e) = Inr v \<and> \<not> type_compatible ops (get_column_type tb it) v"
  then have "insert_set_columns ev ops tb c (zip cols_id expr_list) (init_temp_record ops t)
               = Inl (''[Error] incompatible type.'', t2)"
    using insert_set_columns_bad(2)[of ev ops tb c pre ws "init_temp_record ops t" t2 e v it post]
    by simp
  with a show "insert_rows_loop ev ops tb c cols_id (expr_list # list) (t, count_succ, count_fail, ms) =
      \<lparr>ir_msgs = ms @ [Text ''[Error] incompatible type.''], ir_table = t2, ir_summary = None\<rparr>"
    by (simp add: Let_def)
next
  assume a: "length expr_list = length cols_id
        \<and> zip cols_id expr_list = pre @ post
        \<and> those (map (good_value ev ops tb c) pre) = Some ws
        \<and> write_all ops ws (init_temp_record ops t) = (False, t2)"
  then have "insert_set_columns ev ops tb c (zip cols_id expr_list) (init_temp_record ops t) = Inr (False, t2)"
    using insert_set_columns_refused[of ev ops tb c pre ws "init_temp_record ops t" t2 post]
    by simp
  with a show "insert_rows_loop ev ops tb c cols_id (expr_list # list) (t, count_succ, count_fail, ms) =
      insert_rows_loop ev ops tb c cols_id list (t2, count_succ, count_fail + 1, ms)"
    by (simp add: Let_def)
next
  assume a: "length expr_list = length cols_id
        \<and> those (map (good_value ev ops tb c) (zip cols_id expr_list)) = Some ws
        \<and> write_all ops ws (init_temp_record ops t) = (True, t2)
        \<and> insert_record ops t2 = (new_rid, t3)"
  then have "insert_set_columns ev ops tb c (zip cols_id expr_list) (init_temp_record ops t) = Inr (True, t2)"
    using insert_set_columns_good[of ev ops tb c "zip cols_id expr_list" ws "init_temp_record ops t"]
    by simp
  with a show "insert_rows_loop ev ops tb c cols_id (expr_list # list) (t, count_succ, count_fail, ms) =
      insert_rows_loop ev ops tb c cols_id list
        (t3, if new_rid > 0 then count_succ + 1 else count_succ,
             if new_rid > 0 then count_fail else count_fail + 1, ms)"
    by (simp add: Let_def)
qed (simp add: Let_def)

text \<open>
  An evaluator of literals without payload: an int node is \<open>7\<close>, an int node under a
  minus is \<open>-7\<close>, a string node is a string, and any other node does not evaluate. The
  table content is the list of stored rows and the temp record; the temp record
  refuses a negative cell, and a commit always succeeds.
\<close>

definition ex_lit :: "operator_type \<Rightarrow> term_type_t \<Rightarrow> expr_node_t" where
  "ex_lit opr tt = ExprNode opr tt None None None"

definition ex_eval_lit :: "int row_cache \<Rightarrow> expr_node_t option \<Rightarrow> string + expression" where
  "ex_eval_lit c e =
     (case e of
        None \<Rightarrow> Inl ''[Error] no expression.''
      | Some n \<Rightarrow>
          if term_type n = TERM_INT then Inr (ex_int (if op n = OPERATOR_MINUS then - 7 else 7))
          else if term_type n = TERM_STRING
            then Inr \<lparr>ex_type = TERM_STRING, val_i = 0, val_f = 0, val_b = False, val_s = ''a''\<rparr>
          else Inl ''[Error] unsupported expression.'')"

definition ex_ev_lit :: "int evaluator" where
  "ex_ev_lit = ex_ev\<lparr>eval := ex_eval_lit\<rparr>"

definition ex_insert_ops :: "(int list list \<times> int list, int) insert_ops" where
  "ex_insert_ops =
     \<lparr>init_temp_record = (\<lambda>(rows, tmp). (rows, [])),
      set_temp_record = (\<lambda>(rows, tmp) cid v. if 0 \<le> v then (True, (rows, tmp @ [v])) else (False, (rows, tmp))),
      insert_record = (\<lambda>(rows, tmp). (int (length rows) + 1, (rows @ [tmp], tmp))),
      type_compatible = (\<lambda>col_type v. ex_type v = TERM_INT),
      column_to_term = (\<lambda>col_type. TERM_INT),
      expr_to_db = (\<lambda>v tt. val_i v)\<rparr>"

definition ex_insert :: "expr_node_t list list \<Rightarrow> insert_info_t" where
  "ex_insert values = \<lparr>ii_table = ''A'', ii_columns = None, ii_values = values\<rparr>"

lemmas ex_insert_defs = ex_lit_def ex_eval_lit_def ex_ev_lit_def ex_insert_ops_def ex_insert_def

text \<open>
  A tuple with a string for an int column ends the statement: the well-formed tuple
  after it is not inserted and there is no summary. A tuple of the wrong arity is not
  counted: the summary of the second statement has no failure.
\<close>

theorem insert_rows_counterexample:
  "insert_rows ex_ev_lit ex_insert_ops (Some [ex_A])
      (ex_insert [[ex_lit OPERATOR_NONE TERM_STRING, ex_lit OPERATOR_NONE TERM_INT],
                  [ex_lit OPERATOR_NONE TERM_INT, ex_lit OPERATOR_NONE TERM_INT]])
      Map.empty ([], [])
     = \<lparr>ir_msgs = [Text ''[Error] incompatible type.''], ir_table = ([], []), ir_summary = None\<rparr>
   \<and> insert_rows ex_ev_lit ex_insert_ops (Some [ex_A])
      (ex_insert [[ex_lit OPERATOR_NONE TERM_INT],
                  [ex_lit OPERATOR_NONE TERM_INT, ex_lit OPERATOR_NONE TERM_INT]])
      Map.empty ([], [])
     = \<lparr>ir_msgs = [Text ''[Error] column size not equal.'', RowsInserted 1 0],
        ir_table = ([[7, 7]], [7, 7]), ir_summary = Some (1, 0)\<rparr>"
  by (simp add: insert_rows_def ex_insert_defs ex_defs upt_rec)

text \<open>
  Over the two columns of \<open>A\<close>. A string in the second position, after an int that is
  written, ends the statement: the tuple after it is not inserted. A negative int, which
  the temp record refuses, ends its tuple before the string after it is read: the tuple
  is counted as a failure and the next one is committed. And three tuples of which one
  has the wrong arity, one is refused and one is committed.
\<close>

theorem insert_rows_counts_and_stops_witness:
  "insert_rows_loop ex_ev_lit ex_insert_ops ex_A Map.empty [0, 1]
      [[ex_lit OPERATOR_NONE TERM_INT, ex_lit OPERATOR_NONE TERM_STRING],
       [ex_lit OPERATOR_NONE TERM_INT, ex_lit OPERATOR_NONE TERM_INT]]
      (([], []), 0, 0, [])
     = \<lparr>ir_msgs = [Text ''[Error] incompatible type.''], ir_table = ([], [7]), ir_summary = None\<rparr>
   \<and> insert_rows_loop ex_ev_lit ex_insert_ops ex_A Map.empty [0, 1]
      [[ex_lit OPERATOR_MINUS TERM_INT, ex_lit OPERATOR_NONE TERM_STRING],
       [ex_lit OPERATOR_NONE TERM_INT, ex_lit OPERATOR_NONE TERM_INT]]
      (([], []), 0, 0, [])
     = \<lparr>ir_msgs = [RowsInserted 1 1], ir_table = ([[7, 7]], [7, 7]), ir_summary = Some (1, 1)\<rparr>
   \<and> insert_rows_loop ex_ev_lit ex_insert_ops ex_A Map.empty [0, 1]
      [[ex_lit OPERATOR_NONE TERM_INT],
       [ex_lit OPERATOR_MINUS TERM_INT, ex_lit OPERATOR_NONE TERM_INT],
       [ex_lit OPERATOR_NONE TERM_INT, ex_lit OPERATOR_NONE TERM_INT]]
      (([], []), 0, 0, [])
     = \<lparr>ir_msgs = [Text ''[Error] column size not equal.'', RowsInserted 1 1],
        ir_table = ([[7, 7]], [7, 7]), ir_summary = Some (1, 1)\<rparr>
   \<and> length (right_arity [0, 1]
        [[ex_lit OPERATOR_NONE TERM_INT],
         [ex_lit OPERATOR_MINUS TERM_INT, ex_lit OPERATOR_NONE TERM_INT],
         [ex_lit OPERATOR_NONE TERM_INT, ex_lit OPERATOR_NONE TERM_INT]]) = 2"
proof -
  let ?int = "ex_lit OPERATOR_NONE TERM_INT"
  let ?neg = "ex_lit OPERATOR_MINUS TERM_INT"
  let ?str = "ex_lit OPERATOR_NONE TERM_STRING"
  let ?L = "[[?int], [?neg, ?int], [?int, ?int]]"
  have stop: "length [?int, ?str] = length [0::int, 1]
        \<and> zip [0, 1] [?int, ?str] = [(0, ?int)] @ (1, ?str) # []
        \<and> those (map (good_value ex_ev_lit ex_insert_ops ex_A Map.empty) [(0, ?int)]) = Some [(0, 7)]
        \<and> write_all ex_insert_ops [(0, 7)] (init_temp_record ex_insert_ops ([], [])) = (True, ([], [7]))
        \<and> eval ex_ev_lit Map.empty (Some ?str)
             = Inr \<lparr>ex_type = TERM_STRING, val_i = 0, val_f = 0, val_b = False, val_s = ''a''\<rparr>
        \<and> \<not> type_compatible ex_insert_ops (get_column_type ex_A 1)
               \<lparr>ex_type = TERM_STRING, val_i = 0, val_f = 0, val_b = False, val_s = ''a''\<rparr>"
    by (simp add: good_value_def ex_insert_defs ex_defs)
  have refused: "length [?neg, ?str] = length [0::int, 1]
        \<and> zip [0, 1] [?neg, ?str] = [(0, ?neg)] @ [(1, ?str)]
        \<and> those (map (good_value ex_ev_lit ex_insert_ops ex_A Map.empty) [(0, ?neg)]) = Some [(0, - 7)]
        \<and> write_all ex_insert_ops [(0, - 7)] (init_temp_record ex_insert_ops ([], [])) = (False, ([], []))"
    by (simp add: good_value_def ex_insert_defs ex_defs)
  have h: "\<forall>expr_list\<in>set ?L. length expr_list = length [0::int, 1] \<longrightarrow>
          (\<forall>(it, e)\<in>set (zip [0, 1] expr_list).
             \<exists>v. eval ex_ev_lit Map.empty (Some e) = Inr v
                \<and> type_compatible ex_insert_ops (get_column_type ex_A it) v)"
    by (simp add: ex_insert_defs ex_defs)
  have a: "length (right_arity [0::int, 1] ?L) = 2"
    by (simp add: right_arity_def)
  have s1: "insert_rows_loop ex_ev_lit ex_insert_ops ex_A Map.empty [0, 1]
      [[?int, ?str], [?int, ?int]] (([], []), 0, 0, [])
     = \<lparr>ir_msgs = [] @ [Text ''[Error] incompatible type.''], ir_table = ([], [7]), ir_summary = None\<rparr>"
    using insert_rows_counts_and_stops[where ev = ex_ev_lit and ops = ex_insert_ops
      and tb = ex_A and c = Map.empty and cols_id = "[0, 1]" and t = "([], [])"
      and count_succ = 0 and count_fail = 0 and ms = "[]" and list = "[[?int, ?int]]"
      and expr_list = "[?int, ?str]" and pre = "[(0, ?int)]" and it = 1 and e = ?str and post = "[]"
      and ws = "[(0, 7)]" and ?t2.0 = "([], [7])"
      and v = "\<lparr>ex_type = TERM_STRING, val_i = 0, val_f = 0, val_b = False, val_s = ''a''\<rparr>",
      THEN conjunct2, THEN conjunct2, THEN conjunct1, THEN mp, OF stop] by simp
  have s2: "insert_rows_loop ex_ev_lit ex_insert_ops ex_A Map.empty [0, 1]
      [[?neg, ?str], [?int, ?int]] (([], []), 0, 0, [])
     = insert_rows_loop ex_ev_lit ex_insert_ops ex_A Map.empty [0, 1]
      [[?int, ?int]] (([], []), 0, 0 + 1, [])"
    using insert_rows_counts_and_stops[where ev = ex_ev_lit and ops = ex_insert_ops
      and tb = ex_A and c = Map.empty and cols_id = "[0, 1]" and t = "([], [])"
      and count_succ = 0 and count_fail = 0 and ms = "[]" and list = "[[?int, ?int]]"
      and expr_list = "[?neg, ?str]" and pre = "[(0, ?neg)]" and post = "[(1, ?str)]"
      and ws = "[(0, - 7)]" and ?t2.0 = "([], [])",
      THEN conjunct2, THEN conjunct2, THEN conjunct2, THEN conjunct1, THEN mp, OF refused] by simp
  have s2b: "insert_rows_loop ex_ev_lit ex_insert_ops ex_A Map.empty [0, 1]
      [[?int, ?int]] (([], []), 0, 0 + 1, [])
     = \<lparr>ir_msgs = [RowsInserted 1 1], ir_table = ([[7, 7]], [7, 7]), ir_summary = Some (1, 1)\<rparr>"
    by (simp add: ex_insert_defs ex_defs)
  from insert_rows_counts_and_stops[where ev = ex_ev_lit and ops = ex_insert_ops
      and tb = ex_A and c = Map.empty and cols_id = "[0, 1]" and t = "([], [])"
      and count_succ = 0 and count_fail = 0 and ms = "[]" and tuples = ?L,
      THEN conjunct2, THEN conjunct2, THEN conjunct2, THEN conjunct2, THEN conjunct2, THEN mp, OF h]
  obtain t' succ fail where r:
    "insert_rows_loop ex_ev_lit ex_insert_ops ex_A Map.empty [0, 1] ?L (([], []), 0, 0, []) =
       \<lparr>ir_msgs = [] @ replicate (length ?L - length (right_arity [0, 1] ?L))
                                (Text ''[Error] column size not equal.'')
                           @ [RowsInserted succ fail],
        ir_table = t', ir_summary = Some (succ, fail)\<rparr>"
    "(succ - 0) + (fail - 0) = int (length (right_arity [0, 1] ?L))"
    by blast
  have s3: "insert_rows_loop ex_ev_lit ex_insert_ops ex_A Map.empty [0, 1] ?L (([], []), 0, 0, [])
     = \<lparr>ir_msgs = [Text ''[Error] column size not equal.'', RowsInserted 1 1],
        ir_table = ([[7, 7]], [7, 7]), ir_summary = Some (1, 1)\<rparr>"
    by (simp add: ex_insert_defs ex_defs)
  from s1 s2 s2b s3 a r show ?thesis by simp
qed

section \<open>The join graph\<close>

lemma lookup_table_loop_found:
  "lookup_table_loop ts name k = int i \<Longrightarrow>
     k \<le> i \<and> i - k < length ts \<and> get_table_name (ts ! (i - k)) = name"
proof (induction ts arbitrary: k)
  case Nil
  then show ?case by simp
next
  case (Cons t ts)
  show ?case
  proof (cases "name = get_table_name t")
    case True
    with Cons.prems show ?thesis by simp
  next
    case False
    with Cons.prems have "lookup_table_loop ts name (k + 1) = int i" by simp
    from Cons.IH[OF this] have "k + 1 \<le> i" "i - (k + 1) < length ts"
      "get_table_name (ts ! (i - (k + 1))) = name" by auto
    then show ?thesis by (auto simp: nth_Cons')
  qed
qed

lemma lookup_table_found:
  "lookup_table table_list name = int i \<Longrightarrow>
     i < length table_list \<and> get_table_name (table_list ! i) = name"
  using lookup_table_loop_found[of table_list name 0 i] by (simp add: lookup_table_def)

lemma set2_nth:
  "i < length M \<Longrightarrow> j < length (M ! i) \<Longrightarrow> set2 M i j v ! i ! j = v"
  by (simp add: set2_def)

lemma set2_nth_other:
  "a \<noteq> i \<or> b \<noteq> j \<Longrightarrow> set2 M i j v ! a ! b = M ! a ! b"
  by (cases "i < length M") (auto simp: set2_def nth_list_update list_update_beyond)

lemma set2_length:
  "length (set2 M i j v) = length M"
  by (simp add: set2_def)

lemma set2_length_nth:
  "length (set2 M i j v ! a) = length (M ! a)"
proof (cases "i < length M")
  case True
  then show ?thesis by (cases "a = i") (simp_all add: set2_def)
next
  case False
  then show ?thesis by (simp add: set2_def list_update_beyond)
qed

text \<open>A square matrix of side \<open>n\<close>.\<close>

definition square :: "nat \<Rightarrow> 'a list list \<Rightarrow> bool" where
  "square n M = (length M = n \<and> list_all (\<lambda>row. length row = n) M)"

lemma square_nth: "square n M \<Longrightarrow> a < n \<Longrightarrow> length (M ! a) = n"
  by (simp add: square_def list_all_length)

lemma square_set2: "square n M \<Longrightarrow> square n (set2 M i j v)"
  by (simp add: square_def list_all_length set2_length set2_length_nth)

lemma square_replicate: "square n (replicate n (replicate n v))"
  by (simp add: square_def list_all_length)

lemma join_graph_add_eq:
  assumes "op c = OPERATOR_EQ"
    and "left c = Some l" and "term_type l = TERM_COLUMN_REF" and "column_ref l = Some lref"
    and "right c = Some r" and "term_type r = TERM_COLUMN_REF" and "column_ref r = Some rref"
    and "lookup_table table_list (cr_table lref) = int i"
    and "lookup_table table_list (cr_table rref) = int j"
    and "lookup_column (table_list ! i) (cr_column lref) = cid1" and "cid1 \<noteq> - 1"
    and "lookup_column (table_list ! j) (cr_column rref) = cid2" and "cid2 \<noteq> - 1"
  shows "join_graph_add table_list c (E, J) =
      Inr (if get_index (table_list ! i) cid1 = None \<and> get_index (table_list ! j) cid2 = None then (E, J)
           else if get_index (table_list ! i) cid1 = None then (set2 E j i 1, set2 J j i (Some c))
           else if get_index (table_list ! j) cid2 = None then (set2 E i j 1, set2 J i j (Some c))
           else (set2 (set2 E j i 1) i j 1, set2 (set2 J j i (Some c)) i j (Some c)))"
  unfolding join_graph_add_def using assms by (simp add: Let_def)


text \<open>
  C4. For a conjunct \<open>c\<close> that is an equality of two column references, whose left
  column is column \<open>cid1\<close> of the table of index \<open>i\<close> and whose right column is column
  \<open>cid2\<close> of the table of index \<open>j\<close>: when table \<open>i\<close> has an index on its column, the
  step sets \<open>E[i][j]\<close> to \<open>1\<close> and \<open>J[i][j]\<close> to \<open>c\<close>; when table \<open>j\<close> has an index on its
  column, it sets \<open>E[j][i]\<close> and \<open>J[j][i]\<close>; no other entry changes, so with no index on
  either side the graph is as it was.
\<close>

theorem join_graph_add_edges:
  assumes "op c = OPERATOR_EQ"
    and "left c = Some l" and "term_type l = TERM_COLUMN_REF" and "column_ref l = Some lref"
    and "right c = Some r" and "term_type r = TERM_COLUMN_REF" and "column_ref r = Some rref"
    and "lookup_table table_list (cr_table lref) = int i"
    and "lookup_table table_list (cr_table rref) = int j"
    and "lookup_column (table_list ! i) (cr_column lref) = cid1" and "cid1 \<noteq> - 1"
    and "lookup_column (table_list ! j) (cr_column rref) = cid2" and "cid2 \<noteq> - 1"
    and "square (length table_list) E" and "square (length table_list) J"
  shows "\<exists>E' J'. join_graph_add table_list c (E, J) = Inr (E', J')
           \<and> (get_index (table_list ! i) cid1 \<noteq> None \<longrightarrow> E' ! i ! j = 1 \<and> J' ! i ! j = Some c)
           \<and> (get_index (table_list ! j) cid2 \<noteq> None \<longrightarrow> E' ! j ! i = 1 \<and> J' ! j ! i = Some c)
           \<and> (\<forall>a b. \<not> (a = i \<and> b = j \<and> get_index (table_list ! i) cid1 \<noteq> None)
                    \<and> \<not> (a = j \<and> b = i \<and> get_index (table_list ! j) cid2 \<noteq> None)
                  \<longrightarrow> E' ! a ! b = E ! a ! b \<and> J' ! a ! b = J ! a ! b)
           \<and> (get_index (table_list ! i) cid1 = None \<and> get_index (table_list ! j) cid2 = None
                \<longrightarrow> E' = E \<and> J' = J)
           \<and> square (length table_list) E' \<and> square (length table_list) J'"
proof -
  let ?n = "length table_list"
  let ?idx1 = "get_index (table_list ! i) cid1"
  let ?idx2 = "get_index (table_list ! j) cid2"
  from assms(8,9) have ij: "i < ?n" "j < ?n"
    using lookup_table_found by blast+
  have run: "join_graph_add table_list c (E, J) =
      Inr (if ?idx1 = None \<and> ?idx2 = None then (E, J)
           else if ?idx1 = None then (set2 E j i 1, set2 J j i (Some c))
           else if ?idx2 = None then (set2 E i j 1, set2 J i j (Some c))
           else (set2 (set2 E j i 1) i j 1, set2 (set2 J j i (Some c)) i j (Some c)))"
    using assms(1-13) by (rule join_graph_add_eq)
  have lenE: "length E = ?n" "length (E ! i) = ?n" "length (E ! j) = ?n"
    and lenJ: "length J = ?n" "length (J ! i) = ?n" "length (J ! j) = ?n"
    using assms(14,15) ij by (simp_all add: square_def square_nth)
  have sqE: "square ?n (set2 E a b v)" and sqJ: "square ?n (set2 J a b w)" for a b v w
    using assms(14,15) by (simp_all add: square_set2)
  show ?thesis
  proof (cases "?idx1 = None")
    case n1: True
    show ?thesis
    proof (cases "?idx2 = None")
      case True
      with n1 run assms(14,15) show ?thesis by simp
    next
      case False
      have "set2 E j i 1 ! j ! i = 1" "set2 J j i (Some c) ! j ! i = Some c"
        using ij lenE lenJ by (simp_all add: set2_nth)
      moreover have "set2 E j i 1 ! a ! b = E ! a ! b \<and> set2 J j i (Some c) ! a ! b = J ! a ! b"
        if "\<not> (a = j \<and> b = i)" for a b
        using that by (simp add: set2_nth_other)
      ultimately show ?thesis using n1 False run sqE sqJ by auto
    qed
  next
    case s1: False
    show ?thesis
    proof (cases "?idx2 = None")
      case True
      have "set2 E i j 1 ! i ! j = 1" "set2 J i j (Some c) ! i ! j = Some c"
        using ij lenE lenJ by (simp_all add: set2_nth)
      moreover have "set2 E i j 1 ! a ! b = E ! a ! b \<and> set2 J i j (Some c) ! a ! b = J ! a ! b"
        if "\<not> (a = i \<and> b = j)" for a b
        using that by (simp add: set2_nth_other)
      ultimately show ?thesis using s1 True run sqE sqJ by auto
    next
      case False
      let ?E1 = "set2 E j i 1" and ?J1 = "set2 J j i (Some c)"
      have l1: "i < length ?E1" "j < length (?E1 ! i)" "i < length ?J1" "j < length (?J1 ! i)"
        using ij lenE lenJ by (simp_all add: set2_length set2_length_nth)
      have a: "set2 ?E1 i j 1 ! i ! j = 1" "set2 ?J1 i j (Some c) ! i ! j = Some c"
        using l1 by (simp_all add: set2_nth)
      have b: "set2 ?E1 i j 1 ! j ! i = 1 \<and> set2 ?J1 i j (Some c) ! j ! i = Some c"
      proof (cases "i = j")
        case True
        with a show ?thesis by simp
      next
        case False
        then have "set2 ?E1 i j 1 ! j ! i = ?E1 ! j ! i" "set2 ?J1 i j (Some c) ! j ! i = ?J1 ! j ! i"
          by (simp_all add: set2_nth_other)
        then show ?thesis using ij lenE lenJ by (simp add: set2_nth)
      qed
      have c: "set2 ?E1 i j 1 ! a ! b = E ! a ! b \<and> set2 ?J1 i j (Some c) ! a ! b = J ! a ! b"
        if "\<not> (a = i \<and> b = j)" "\<not> (a = j \<and> b = i)" for a b
        using that by (simp add: set2_nth_other)
      have sq: "square ?n (set2 ?E1 i j 1)" "square ?n (set2 ?J1 i j (Some c))"
        using sqE sqJ by (simp_all add: square_set2)
      have r: "join_graph_add table_list c (E, J) = Inr (set2 ?E1 i j 1, set2 ?J1 i j (Some c))"
        using run s1 False by simp
      show ?thesis unfolding r using a b c sq s1 False by auto
    qed
  qed
qed


text \<open>
  The tables \<open>B\<close> (index \<open>0\<close>, with an index on \<open>x\<close>) and \<open>A\<close> (index \<open>1\<close>, without), and the
  conjunct \<open>B.x = A.x\<close>: the left table has the index, and the edge is \<open>E[0][1]\<close>, while
  \<open>E[1][0]\<close> stays \<open>0\<close>.
\<close>

theorem join_graph_edge_counterexample:
  "join_graph_setup [ex_B, ex_A] [ex_eq (ex_ref ''B'' ''x'') (ex_ref ''A'' ''x'')]
     (replicate 2 (replicate 2 0), replicate 2 (replicate 2 None))
   = Inr ([[0, 1], [0, 0]],
          [[None, Some (ex_eq (ex_ref ''B'' ''x'') (ex_ref ''A'' ''x''))], [None, None]])"
  by (simp add: join_graph_add_def lookup_table_def set2_def ex_defs numeral_2_eq_2)

theorem join_graph_add_edges_witness:
  "get_index (([ex_B, ex_A]) ! 0) 0 \<noteq> None
   \<and> get_index (([ex_B, ex_A]) ! 1) 0 = None
   \<and> join_graph_add [ex_B, ex_A] (ex_eq (ex_ref ''B'' ''x'') (ex_ref ''A'' ''x''))
        ([[0, 0], [0, 0]], [[None, None], [None, None]])
      = Inr ([[0, 1], [0, 0]],
             [[None, Some (ex_eq (ex_ref ''B'' ''x'') (ex_ref ''A'' ''x''))], [None, None]])"
proof -
  let ?c = "ex_eq (ex_ref ''B'' ''x'') (ex_ref ''A'' ''x'')"
  let ?l = "ex_ref ''B'' ''x''" and ?r = "ex_ref ''A'' ''x''"
  have i: "get_index (([ex_B, ex_A]) ! 0) 0 \<noteq> None" "get_index (([ex_B, ex_A]) ! 1) 0 = None"
    by (simp_all add: ex_defs)
  have "\<exists>E' J'. join_graph_add [ex_B, ex_A] ?c ([[0, 0], [0, 0]], [[None, None], [None, None]]) = Inr (E', J')
           \<and> (get_index ([ex_B, ex_A] ! 0) 0 \<noteq> None \<longrightarrow> E' ! 0 ! 1 = 1 \<and> J' ! 0 ! 1 = Some ?c)
           \<and> (get_index ([ex_B, ex_A] ! 1) 0 \<noteq> None \<longrightarrow> E' ! 1 ! 0 = 1 \<and> J' ! 1 ! 0 = Some ?c)
           \<and> (\<forall>a b. \<not> (a = 0 \<and> b = 1 \<and> get_index ([ex_B, ex_A] ! 0) 0 \<noteq> None)
                    \<and> \<not> (a = 1 \<and> b = 0 \<and> get_index ([ex_B, ex_A] ! 1) 0 \<noteq> None)
                  \<longrightarrow> E' ! a ! b = [[0, 0], [0, 0]] ! a ! b \<and> J' ! a ! b = [[None, None], [None, None]] ! a ! b)
           \<and> (get_index ([ex_B, ex_A] ! 0) 0 = None \<and> get_index ([ex_B, ex_A] ! 1) 0 = None
                \<longrightarrow> E' = [[0, 0], [0, 0]] \<and> J' = [[None, None], [None, None]])
           \<and> square (length [ex_B, ex_A]) E' \<and> square (length [ex_B, ex_A]) J'"
    by (rule join_graph_add_edges[where l = ?l and r = ?r
          and lref = "\<lparr>cr_table = ''B'', cr_column = ''x''\<rparr>"
          and rref = "\<lparr>cr_table = ''A'', cr_column = ''x''\<rparr>"])
       (simp_all add: ex_defs lookup_table_def square_def)
  then obtain E' J' where
    r: "join_graph_add [ex_B, ex_A] ?c ([[0, 0], [0, 0]], [[None, None], [None, None]]) = Inr (E', J')"
    and e: "E' ! 0 ! 1 = 1"
    using i by blast
  have "join_graph_add [ex_B, ex_A] ?c ([[0, 0], [0, 0]], [[None, None], [None, None]])
      = Inr ([[0, 1], [0, 0]], [[None, Some ?c], [None, None]])"
    by (simp add: join_graph_add_def lookup_table_def set2_def ex_defs)
  with i r e show ?thesis by simp
qed

section \<open>The planner\<close>

lemma find_longest_path_frame:
  "find_longest_path now depth E e (mark, path, md) = (r, (mark', path', md')) \<Longrightarrow>
     (\<forall>k<depth. path' k = path k) \<and> md \<le> md' \<and> (\<not> r \<longrightarrow> mark' = mark(now := 0))
     \<and> (int depth \<le> e \<longrightarrow> md' \<le> max md e)"
  "find_longest_path_loop now2 depth2 E2 e2 i (mark2, path2, md2) = (r2, (mark2', path2', md2')) \<Longrightarrow>
     (\<forall>k\<le>depth2. path2' k = path2 k) \<and> md2 \<le> md2' \<and> (\<not> r2 \<longrightarrow> mark2' = mark2(now2 := 0))
     \<and> (int depth2 < e2 \<longrightarrow> md2' \<le> max md2 e2)"
proof (induction now depth E e "(mark, path, md)" and now2 depth2 E2 e2 i "(mark2, path2, md2)"
       arbitrary: mark path md r mark' path' md' and mark2 path2 md2 r2 mark2' path2' md2'
       rule: find_longest_path_find_longest_path_loop.induct)
  case (1 now depth E excepted_len mark path max_depth)
  show ?case
  proof (cases "int depth = excepted_len")
    case True
    with 1(2) show ?thesis by (auto simp: Let_def)
  next
    case False
    let ?md1 = "if int depth > max_depth then int depth else max_depth"
    from False 1(2) have l: "find_longest_path_loop now depth E excepted_len 0
        (mark(now := 1), path(depth := now), ?md1) = (r, (mark', path', md'))"
      by (simp add: Let_def)
    from 1(1)[OF refl refl refl False l]
    show ?thesis using False by (auto simp: max_def split: if_splits)
  qed
next
  case (2 now depth E excepted_len i mark path max_depth)
  show ?case
  proof (cases "i < length E")
    case False
    with 2(4) show ?thesis by auto
  next
    case True
    note i = this
    show ?thesis
    proof (cases "E ! now ! i = 0 \<or> mark i \<noteq> 0")
      case True
      with i 2(4) have "find_longest_path_loop now depth E excepted_len (i + 1) (mark, path, max_depth)
          = (r2, (mark2', path2', md2'))" by simp
      from 2(1)[OF _ True this] i show ?thesis by simp
    next
      case False
      obtain ra mka pa mda where a: "find_longest_path i (depth + 1) E excepted_len (mark, path, max_depth)
          = (ra, (mka, pa, mda))"
        by (cases "find_longest_path i (depth + 1) E excepted_len (mark, path, max_depth)") auto
      from i False have g: "\<not> \<not> i < length E" "\<not> (E ! now ! i = 0 \<or> mark i \<noteq> 0)" by auto
      note fa = 2(2)[OF g a]
      show ?thesis
      proof (cases ra)
        case True
        with i False a 2(4) have "(r2, (mark2', path2', md2')) = (True, (mka, pa, mda))" by simp
        with fa show ?thesis by (auto simp: max_def)
      next
        case ra: False
        with i False a 2(4) have l: "find_longest_path_loop now depth E excepted_len (i + 1) (mka, pa, mda)
            = (r2, (mark2', path2', md2'))" by simp
        from fa ra False have mk: "mka = mark" by (auto simp: fun_upd_idem)
        from ra a have a': "(ra, (mka, pa, mda)) = find_longest_path i (depth + 1) E excepted_len (mark, path, max_depth)"
          "ra = False" by simp_all
        note fl = 2(3)[OF g a' l]
        show ?thesis using fa fl mk by (auto simp: max_def split: if_splits)
      qed
    qed
  qed
qed

lemma find_longest_path_sound:
  "find_longest_path now depth E e (mark, path, md) = (True, (mark', path', md')) \<Longrightarrow>
     \<exists>d. depth \<le> d \<and> int d = e \<and> path' depth = now
       \<and> (\<forall>k. depth \<le> k \<and> k < d \<longrightarrow> E ! path' k ! path' (k + 1) \<noteq> 0)
       \<and> (\<forall>k. depth < k \<and> k \<le> d \<longrightarrow> path' k < length E \<and> mark (path' k) = 0 \<and> path' k \<noteq> now)
       \<and> distinct (map path' [depth + 1..<d + 1])"
  "find_longest_path_loop now2 depth2 E2 e2 i (mark2, path2, md2) = (True, (mark2', path2', md2')) \<Longrightarrow>
     \<exists>d. depth2 < d \<and> int d = e2 \<and> E2 ! now2 ! path2' (depth2 + 1) \<noteq> 0
       \<and> (\<forall>k. depth2 < k \<and> k < d \<longrightarrow> E2 ! path2' k ! path2' (k + 1) \<noteq> 0)
       \<and> (\<forall>k. depth2 < k \<and> k \<le> d \<longrightarrow> path2' k < length E2 \<and> mark2 (path2' k) = 0)
       \<and> distinct (map path2' [depth2 + 1..<d + 1])"
proof (induction now depth E e "(mark, path, md)" and now2 depth2 E2 e2 i "(mark2, path2, md2)"
       arbitrary: mark path md mark' path' md' and mark2 path2 md2 mark2' path2' md2'
       rule: find_longest_path_find_longest_path_loop.induct)
  case (1 now depth E excepted_len mark path max_depth)
  show ?case
  proof (cases "int depth = excepted_len")
    case True
    with 1(2) have "path' = path(depth := now)" by (auto simp: Let_def)
    with True show ?thesis by (intro exI[of _ depth]) simp
  next
    case False
    let ?md1 = "if int depth > max_depth then int depth else max_depth"
    from False 1(2) have l: "find_longest_path_loop now depth E excepted_len 0
        (mark(now := 1), path(depth := now), ?md1) = (True, (mark', path', md'))"
      by (simp add: Let_def)
    from 1(1)[OF refl refl refl False l] obtain d where d: "depth < d" "int d = excepted_len"
      "E ! now ! path' (depth + 1) \<noteq> 0"
      "\<forall>k. depth < k \<and> k < d \<longrightarrow> E ! path' k ! path' (k + 1) \<noteq> 0"
      "\<forall>k. depth < k \<and> k \<le> d \<longrightarrow> path' k < length E \<and> (mark(now := 1)) (path' k) = 0"
      "distinct (map path' [depth + 1..<d + 1])"
      by blast
    from find_longest_path_frame(2)[OF l] have p: "path' depth = now" by simp
    have c: "E ! path' k ! path' (k + 1) \<noteq> 0" if "depth \<le> k" "k < d" for k
      using that d(3,4) p by (cases "k = depth") auto
    have u: "path' k < length E \<and> mark (path' k) = 0 \<and> path' k \<noteq> now" if "depth < k" "k \<le> d" for k
      using that d(5) by (auto split: if_splits)
    show ?thesis
      using d(1,2,6) p c u by (intro exI[of _ d]) simp
  qed
next
  case (2 now depth E excepted_len i mark path max_depth)
  show ?case
  proof (cases "i < length E")
    case False
    with 2(4) show ?thesis by auto
  next
    case True
    note i = this
    show ?thesis
    proof (cases "E ! now ! i = 0 \<or> mark i \<noteq> 0")
      case True
      with i 2(4) have "find_longest_path_loop now depth E excepted_len (i + 1) (mark, path, max_depth)
          = (True, (mark2', path2', md2'))" by simp
      from 2(1)[OF _ True this] i show ?thesis by simp
    next
      case False
      obtain ra mka pa mda where a: "find_longest_path i (depth + 1) E excepted_len (mark, path, max_depth)
          = (ra, (mka, pa, mda))"
        by (cases "find_longest_path i (depth + 1) E excepted_len (mark, path, max_depth)") auto
      from i False have g: "\<not> \<not> i < length E" "\<not> (E ! now ! i = 0 \<or> mark i \<noteq> 0)" by auto
      show ?thesis
      proof (cases ra)
        case True
        with i False a 2(4) have eq: "mka = mark2'" "pa = path2'" "mda = md2'" by simp_all
        from a True eq have a': "find_longest_path i (depth + 1) E excepted_len (mark, path, max_depth)
          = (True, (mark2', path2', md2'))" by simp
        from 2(2)[OF g a'] obtain d where d: "depth + 1 \<le> d" "int d = excepted_len"
          "path2' (depth + 1) = i"
          "\<forall>k. depth + 1 \<le> k \<and> k < d \<longrightarrow> E ! path2' k ! path2' (k + 1) \<noteq> 0"
          "\<forall>k. depth + 1 < k \<and> k \<le> d \<longrightarrow> path2' k < length E \<and> mark (path2' k) = 0 \<and> path2' k \<noteq> i"
          "distinct (map path2' [depth + 1 + 1..<d + 1])"
          by blast
        have u: "path2' k < length E \<and> mark (path2' k) = 0" if "depth < k" "k \<le> d" for k
          using that d(3,5) i False by (cases "k = depth + 1") auto
        have "[depth + 1..<d + 1] = (depth + 1) # [depth + 1 + 1..<d + 1]"
          using d(1) by (simp add: upt_conv_Cons)
        moreover have "path2' (depth + 1) \<notin> set (map path2' [depth + 1 + 1..<d + 1])"
        proof
          assume "path2' (depth + 1) \<in> set (map path2' [depth + 1 + 1..<d + 1])"
          then obtain k where k: "depth + 1 + 1 \<le> k" "k < d + 1" "path2' (depth + 1) = path2' k"
            by auto
          from k(1,2) have "depth + 1 < k \<and> k \<le> d" by simp
          with d(5) have "path2' k \<noteq> i" by blast
          with k(3) d(3) show False by simp
        qed
        ultimately have dist: "distinct (map path2' [depth + 1..<d + 1])"
          using d(6) by simp
        show ?thesis
          using d(1,2,3,4) u dist False by (intro exI[of _ d]) auto
      next
        case ra: False
        with i False a 2(4) have l: "find_longest_path_loop now depth E excepted_len (i + 1) (mka, pa, mda)
            = (True, (mark2', path2', md2'))" by simp
        from find_longest_path_frame(1)[OF a] ra False have mk: "mka = mark" by (auto simp: fun_upd_idem)
        from ra a have a': "(ra, (mka, pa, mda)) = find_longest_path i (depth + 1) E excepted_len (mark, path, max_depth)"
          "ra = False" by simp_all
        from 2(3)[OF g a' l] mk show ?thesis by simp
      qed
    qed
  qed
qed

lemma find_longest_path_reaches:
  "find_longest_path now depth E e (mark, path, md) = (r, st) \<Longrightarrow> int depth \<le> e \<Longrightarrow> e \<le> e1 \<Longrightarrow>
     find_longest_path now depth E e1 (mark, pathb, mdb) = (rb, (mkb, pb, db)) \<Longrightarrow>
     r \<or> (\<not> rb \<and> (mdb < e \<longrightarrow> db < e))"
  "find_longest_path_loop now2 depth2 E2 e2 i (mark2, path2, md2) = (r2, st2) \<Longrightarrow> int depth2 < e2 \<Longrightarrow> e2 \<le> e1' \<Longrightarrow>
     find_longest_path_loop now2 depth2 E2 e1' i (mark2, pathb2, mdb2) = (rb2, (mkb2, pb2, db2)) \<Longrightarrow>
     r2 \<or> (\<not> rb2 \<and> (mdb2 < e2 \<longrightarrow> db2 < e2))"
proof (induction now depth E e "(mark, path, md)" and now2 depth2 E2 e2 i "(mark2, path2, md2)"
       arbitrary: mark path md r st pathb mdb rb mkb pb db e1
              and mark2 path2 md2 r2 st2 pathb2 mdb2 rb2 mkb2 pb2 db2 e1'
       rule: find_longest_path_find_longest_path_loop.induct)
  case (1 now depth E excepted_len mark path max_depth)
  show ?case
  proof (cases "int depth = excepted_len")
    case True
    with 1(2) show ?thesis by (auto simp: Let_def)
  next
    case False
    with 1(3) have lt: "int depth < excepted_len" by simp
    with 1(4) have ne1: "int depth \<noteq> e1" by simp
    let ?md1 = "if int depth > max_depth then int depth else max_depth"
    let ?mdb1 = "if int depth > mdb then int depth else mdb"
    from False 1(2) have l: "find_longest_path_loop now depth E excepted_len 0
        (mark(now := 1), path(depth := now), ?md1) = (r, st)"
      by (simp add: Let_def)
    from ne1 1(5) have lb: "find_longest_path_loop now depth E e1 0
        (mark(now := 1), pathb(depth := now), ?mdb1) = (rb, (mkb, pb, db))"
      by (simp add: Let_def)
    from 1(1)[OF refl refl refl False l lt 1(4) lb] lt
    show ?thesis by (auto split: if_splits)
  qed
next
  case (2 now depth E excepted_len i mark path max_depth)
  show ?case
  proof (cases "i < length E")
    case False
    with 2(7) show ?thesis by auto
  next
    case True
    note i = this
    show ?thesis
    proof (cases "E ! now ! i = 0 \<or> mark i \<noteq> 0")
      case True
      with i 2(4) have l: "find_longest_path_loop now depth E excepted_len (i + 1) (mark, path, max_depth)
          = (r2, st2)" by simp
      from True i 2(7) have lb: "find_longest_path_loop now depth E e1' (i + 1) (mark, pathb2, mdb2)
          = (rb2, (mkb2, pb2, db2))" by simp
      from i have g: "\<not> \<not> i < length E" by simp
      from 2(1)[OF g True l 2(5) 2(6) lb] show ?thesis .
    next
      case False
      obtain ra mka pa mda where a: "find_longest_path i (depth + 1) E excepted_len (mark, path, max_depth)
          = (ra, (mka, pa, mda))"
        by (cases "find_longest_path i (depth + 1) E excepted_len (mark, path, max_depth)") auto
      obtain rc mkc pc mdc where c: "find_longest_path i (depth + 1) E e1' (mark, pathb2, mdb2)
          = (rc, (mkc, pc, mdc))"
        by (cases "find_longest_path i (depth + 1) E e1' (mark, pathb2, mdb2)") auto
      from i False have g: "\<not> \<not> i < length E" "\<not> (E ! now ! i = 0 \<or> mark i \<noteq> 0)" by auto
      from 2(5) have d1: "int (depth + 1) \<le> excepted_len" by simp
      note ih = 2(2)[OF g a d1 2(6) c]
      show ?thesis
      proof (cases ra)
        case True
        with i False a 2(4) show ?thesis by simp
      next
        case ra: False
        with ih have rc: "\<not> rc" and mdc: "mdb2 < excepted_len \<longrightarrow> mdc < excepted_len" by auto
        from ra i False a 2(4) have l: "find_longest_path_loop now depth E excepted_len (i + 1) (mka, pa, mda)
            = (r2, st2)" by simp
        from rc i False c 2(7) have lb: "find_longest_path_loop now depth E e1' (i + 1) (mkc, pc, mdc)
            = (rb2, (mkb2, pb2, db2))" by simp
        from find_longest_path_frame(1)[OF a] ra have "mka = mark(i := 0)" by simp
        moreover from find_longest_path_frame(1)[OF c] rc have "mkc = mark(i := 0)" by simp
        ultimately have mk: "mkc = mka" by simp
        from ra a have a': "(ra, (mka, pa, mda)) = find_longest_path i (depth + 1) E excepted_len (mark, path, max_depth)"
          "ra = False" by simp_all
        from 2(3)[OF g a' l 2(5) 2(6) lb[unfolded mk]] mdc
        show ?thesis by auto
      qed
    qed
  qed
qed

lemma fold_invariant:
  "(\<And>x s. x \<in> set xs \<Longrightarrow> Inv s \<Longrightarrow> Inv (f x s)) \<Longrightarrow> Inv s \<Longrightarrow> Inv (fold f xs s)"
  by (induction xs arbitrary: s) simp_all

text \<open>
  What the loop over the start vertices keeps: the depth it holds was reached by the
  search from the start it holds.
\<close>

definition start_found :: "int list list \<Rightarrow> nat \<Rightarrow> (nat \<Rightarrow> nat) \<times> int \<times> nat \<Rightarrow> bool" where
  "start_found E len = (\<lambda>(path, max_depth, start).
     0 \<le> max_depth \<and> max_depth \<le> 2147483647 \<and> start < len
     \<and> (max_depth = 0
        \<or> (\<exists>p r mk p'. find_longest_path start 0 E 2147483647 ((\<lambda>_. 0), p, 0) = (r, (mk, p', max_depth)))))"

lemma plan_try_start_found:
  assumes "start_found E len s" "i < len"
  shows "start_found E len (plan_try_start E i s)"
proof -
  obtain path max_depth start where s: "s = (path, max_depth, start)" by (cases s)
  obtain r mk p' m where f: "find_longest_path i 0 E 2147483647 ((\<lambda>_. 0), path, 0) = (r, (mk, p', m))"
    by (cases "find_longest_path i 0 E 2147483647 ((\<lambda>_. 0), path, 0)") auto
  from find_longest_path_frame(1)[OF f] have m: "0 \<le> m" "m \<le> 2147483647" by simp_all
  show ?thesis
  proof (cases "m > max_depth")
    case True
    with s f have "plan_try_start E i s = (p', m, i)" by (simp add: plan_try_start_def)
    with m f assms(2) show ?thesis unfolding start_found_def by auto
  next
    case False
    with s f have "plan_try_start E i s = (p', max_depth, start)" by (simp add: plan_try_start_def)
    with assms(1) s show ?thesis unfolding start_found_def by auto
  qed
qed

lemma plan_starts_found:
  assumes "0 < len"
  shows "start_found E len (fold (plan_try_start E) [0..<len] (path0, 0, 0))"
proof (rule fold_invariant)
  show "start_found E len (path0, 0, 0)" using assms by (simp add: start_found_def)
  show "start_found E len (plan_try_start E x s)" if "x \<in> set [0..<len]" "start_found E len s" for x s
    using that by (simp add: plan_try_start_found)
qed

lemma find_longest_path_again:
  assumes "start_found E len (path1, max_depth, start)"
  shows "fst (find_longest_path start 0 E max_depth ((\<lambda>_. 0), path1, uninit))"
proof (cases "max_depth = 0")
  case True
  then show ?thesis by (simp add: Let_def)
next
  case False
  with assms obtain p r mk p' where
    f: "find_longest_path start 0 E 2147483647 ((\<lambda>_. 0), p, 0) = (r, (mk, p', max_depth))"
    and b: "0 \<le> max_depth" "max_depth \<le> 2147483647"
    unfolding start_found_def by auto
  obtain r2 st2 where g: "find_longest_path start 0 E max_depth ((\<lambda>_. 0), path1, uninit) = (r2, st2)"
    by (cases "find_longest_path start 0 E max_depth ((\<lambda>_. 0), path1, uninit)")
  from find_longest_path_reaches(1)[OF g _ b(2) f] b(1) False
  have "r2" by auto
  with g show ?thesis by simp
qed

lemma fold_mark_path:
  "fold (\<lambda>i mark. mark(path i := 1)) [0..<k] (\<lambda>_. 0) = (\<lambda>v. if v \<in> path ` {0..<k} then 1 else (0::int))"
proof (induction k)
  case 0
  show ?case by simp
next
  case (Suc k)
  let ?f = "\<lambda>i mark. mark(path i := (1::int))"
  have "fold ?f [0..<Suc k] (\<lambda>_. 0) = (fold ?f [0..<k] (\<lambda>_. 0))(path k := 1)"
    by simp
  also have "\<dots> = (\<lambda>v. if v \<in> path ` {0..<k} then 1 else (0::int))(path k := 1)"
    by (simp only: Suc)
  also have "\<dots> = (\<lambda>v. if v \<in> path ` {0..<Suc k} then 1 else (0::int))"
    by (auto simp: fun_eq_iff atLeast0_lessThan_Suc)
  finally show ?case .
qed

lemma plan_append_step:
  "plan_append mark x (path, cur) = (if mark x = 0 then (path(cur + 1 := x), cur + 1) else (path, cur))"
  by (simp add: plan_append_def)

lemma fold_plan_append:
  "fold (plan_append mark) xs (path, cur) = (path', cur') \<Longrightarrow>
     cur' = cur + length (filter (\<lambda>i. mark i = 0) xs)
     \<and> (\<forall>k\<le>cur. path' k = path k)
     \<and> map path' [cur + 1..<cur' + 1] = filter (\<lambda>i. mark i = 0) xs"
proof (induction xs arbitrary: path cur)
  case Nil
  then show ?case by simp
next
  case (Cons x xs)
  show ?case
  proof (cases "mark x = 0")
    case False
    with Cons.prems have "fold (plan_append mark) xs (path, cur) = (path', cur')"
      by (simp add: plan_append_step)
    from Cons.IH[OF this] False show ?thesis by (auto simp del: upt_Suc)
  next
    case True
    with Cons.prems have "fold (plan_append mark) xs (path(cur + 1 := x), cur + 1) = (path', cur')"
      by (simp add: plan_append_step)
    from Cons.IH[OF this] have ih: "cur' = cur + 1 + length (filter (\<lambda>i. mark i = 0) xs)"
      "\<forall>k\<le>cur + 1. path' k = (path(cur + 1 := x)) k"
      "map path' [cur + 1 + 1..<cur' + 1] = filter (\<lambda>i. mark i = 0) xs"
      by blast+
    from ih(1) have "cur + 1 < cur' + 1" by simp
    then have "[cur + 1..<cur' + 1] = (cur + 1) # [cur + 1 + 1..<cur' + 1]"
      by (simp only: upt_conv_Cons Suc_eq_plus1)
    moreover from ih(2) have "path' (cur + 1) = x" by simp
    moreover from ih(2) have "\<forall>k\<le>cur. path' k = path k" by simp
    ultimately show ?thesis using ih(1,3) True by (auto simp del: upt_Suc)
  qed
qed

text \<open>The plan: what the two searches and the appending loop produce.\<close>

lemma plan_permutation:
  assumes "0 < len" and "length E = len"
  shows "\<exists>path max_depth.
           iterate_many_tables_plan E len path0 uninit = Inr (path, max_depth)
           \<and> 0 \<le> max_depth \<and> nat max_depth < len
           \<and> mset (map path [0..<len]) = mset [0..<len]
           \<and> distinct (map path [0..<nat max_depth + 1])
           \<and> (\<forall>k<nat max_depth. E ! path k ! path (k + 1) \<noteq> 0)
           \<and> map path [nat max_depth + 1..<len] =
               filter (\<lambda>v. v \<notin> path ` {0..<nat max_depth + 1}) [0..<len]"
proof -
  obtain path1 max_depth start where
    f: "fold (plan_try_start E) [0..<len] (path0, 0, 0) = (path1, max_depth, start)"
    by (cases "fold (plan_try_start E) [0..<len] (path0, 0, 0)")
  from plan_starts_found[OF assms(1), of E path0] f
  have sf: "start_found E len (path1, max_depth, start)" by simp
  then have md: "0 \<le> max_depth" and st: "start < len"
    by (simp_all add: start_found_def)
  obtain r mk2 path2 md2 where
    g: "find_longest_path start 0 E max_depth ((\<lambda>_. 0), path1, uninit) = (r, (mk2, path2, md2))"
    by (cases "find_longest_path start 0 E max_depth ((\<lambda>_. 0), path1, uninit)") auto
  from find_longest_path_again[OF sf, of uninit] g have r by simp
  with g have g': "find_longest_path start 0 E max_depth ((\<lambda>_. 0), path1, uninit) = (True, (mk2, path2, md2))"
    by simp
  from find_longest_path_sound(1)[OF g'] obtain d where d: "int d = max_depth" "path2 0 = start"
    and chain: "\<forall>k. 0 \<le> k \<and> k < d \<longrightarrow> E ! path2 k ! path2 (k + 1) \<noteq> 0"
    and rest: "\<forall>k. 0 < k \<and> k \<le> d \<longrightarrow> path2 k < length E \<and> path2 k \<noteq> start"
    and dist: "distinct (map path2 [0 + 1..<d + 1])"
    by blast
  from d(1) have nd: "nat max_depth = d" by simp
  have "[0..<d + 1] = 0 # [0 + 1..<d + 1]"
    by (simp only: upt_conv_Cons Suc_eq_plus1 add_0 zero_less_Suc flip: Suc_eq_plus1)
  moreover have "path2 0 \<notin> set (map path2 [0 + 1..<d + 1])"
  proof
    assume "path2 0 \<in> set (map path2 [0 + 1..<d + 1])"
    then obtain k where k: "0 + 1 \<le> k" "k < d + 1" "path2 0 = path2 k" by auto
    then have "0 < k \<and> k \<le> d" by simp
    with rest have "path2 k \<noteq> start" by blast
    with k(3) d(2) show False by simp
  qed
  ultimately have dist2: "distinct (map path2 [0..<d + 1])"
    using dist by simp
  let ?S = "path2 ` {0..<d + 1}"
  have sub: "?S \<subseteq> {0..<len}"
  proof
    fix v assume "v \<in> ?S"
    then obtain k where k: "k < d + 1" "v = path2 k" by auto
    show "v \<in> {0..<len}"
    proof (cases "k = 0")
      case True
      with k d(2) st show ?thesis by simp
    next
      case False
      with k(1) have "0 < k \<and> k \<le> d" by simp
      with rest assms(2) k(2) show ?thesis by auto
    qed
  qed
  have "card (set (map path2 [0..<d + 1])) = length (map path2 [0..<d + 1])"
    using dist2 by (rule distinct_card)
  then have cardS: "card ?S = d + 1"
    by (simp del: upt_Suc)
  let ?mark = "fold (\<lambda>i mark. mark(path2 i := 1)) [0..<nat max_depth + 1] (\<lambda>_. 0::int)"
  have mark: "?mark = (\<lambda>v. if v \<in> ?S then 1 else 0)"
    unfolding nd by (rule fold_mark_path)
  obtain path3 cur where
    a: "fold (plan_append ?mark) [0..<len] (path2, nat max_depth) = (path3, cur)"
    by (cases "fold (plan_append ?mark) [0..<len] (path2, nat max_depth)")
  let ?ind = "\<lambda>v. if v \<in> ?S then 1 else (0::int)"
  have markd: "fold (\<lambda>i mark. mark(path2 i := 1)) [0..<d + 1] (\<lambda>_. 0::int) = ?ind"
    by (rule fold_mark_path)
  have a': "fold (plan_append ?ind) [0..<len] (path2, d) = (path3, cur)"
    using a unfolding nd markd .
  have filt: "filter (\<lambda>i. ?ind i = 0) [0..<len] = filter (\<lambda>v. v \<notin> ?S) [0..<len]"
    by (rule filter_cong) simp_all
  note fa = fold_plan_append[OF a', unfolded filt]
  from fa have cur: "cur = d + length (filter (\<lambda>v. v \<notin> ?S) [0..<len])" by (rule conjunct1)
  from fa have low: "\<forall>k\<le>d. path3 k = path2 k" by (rule conjunct2[THEN conjunct1])
  from fa have app: "map path3 [d + 1..<cur + 1] = filter (\<lambda>v. v \<notin> ?S) [0..<len]"
    by (rule conjunct2[THEN conjunct2])
  have "length (filter (\<lambda>v. v \<notin> ?S) [0..<len]) = card ({0..<len} - ?S)"
  proof -
    have "distinct (filter (\<lambda>v. v \<notin> ?S) [0..<len])" by simp
    then have "length (filter (\<lambda>v. v \<notin> ?S) [0..<len]) = card (set (filter (\<lambda>v. v \<notin> ?S) [0..<len]))"
      by (simp only: distinct_card)
    also have "set (filter (\<lambda>v. v \<notin> ?S) [0..<len]) = {0..<len} - ?S" by auto
    finally show ?thesis .
  qed
  also have "\<dots> = len - (d + 1)"
    using sub cardS by (simp add: card_Diff_subset)
  finally have lenf: "length (filter (\<lambda>v. v \<notin> ?S) [0..<len]) = len - (d + 1)" .
  have dlen: "d + 1 \<le> len"
    using card_mono[OF _ sub] cardS by simp
  with cur lenf have curlen: "cur + 1 = len" by simp
  have run: "iterate_many_tables_plan E len path0 uninit = Inr (path3, max_depth)"
    by (simp only: iterate_many_tables_plan_def f g' a Let_def prod.case bool.case)
  have first: "map path3 [0..<d + 1] = map path2 [0..<d + 1]"
    using low by (simp del: upt_Suc add: less_Suc_eq_le)
  have img: "path3 ` {0..<d + 1} = ?S"
    by (rule image_cong) (use low in \<open>simp_all add: less_Suc_eq_le\<close>)
  have split: "[0..<len] = [0..<d + 1] @ [d + 1..<len]"
    using upt_add_eq_append[of 0 "d + 1" "len - (d + 1)"] dlen by (simp del: upt_Suc)
  have tail: "map path3 [d + 1..<len] = filter (\<lambda>v. v \<notin> ?S) [0..<len]"
    using app unfolding curlen .
  have "mset (map path2 [0..<d + 1]) = mset (filter (\<lambda>v. v \<in> ?S) [0..<len])"
  proof -
    have "set (map path2 [0..<d + 1]) = ?S"
      by (simp del: upt_Suc)
    moreover have "set (filter (\<lambda>v. v \<in> ?S) [0..<len]) = ?S"
      using sub by (auto simp del: upt_Suc)
    ultimately have "set (map path2 [0..<d + 1]) = set (filter (\<lambda>v. v \<in> ?S) [0..<len])"
      by (simp only:)
    moreover have "distinct (filter (\<lambda>v. v \<in> ?S) [0..<len])" by simp
    ultimately show ?thesis using dist2 by (simp only: set_eq_iff_mset_eq_distinct)
  qed
  note inS = this
  have "mset (map path3 [0..<len]) = mset (map path3 [0..<d + 1]) + mset (map path3 [d + 1..<len])"
    by (subst split) (simp only: map_append mset_append)
  also have "\<dots> = mset (filter (\<lambda>v. v \<in> ?S) [0..<len]) + mset (filter (\<lambda>v. v \<notin> ?S) [0..<len])"
    by (simp only: first tail inS)
  also have "\<dots> = mset [0..<len]"
  proof -
    have "mset [0..<len] = filter_mset (\<lambda>v. v \<in> ?S) (mset [0..<len])
        + filter_mset (\<lambda>v. v \<notin> ?S) (mset [0..<len])"
      by (rule multiset_partition)
    then show ?thesis by (simp only: mset_filter)
  qed
  finally have perm: "mset (map path3 [0..<len]) = mset [0..<len]" .
  have ch: "\<forall>k<d. E ! path3 k ! path3 (k + 1) \<noteq> 0"
    using chain low by simp
  have dist3: "distinct (map path3 [0..<d + 1])"
    using dist2 unfolding first .
  have "iterate_many_tables_plan E len path0 uninit = Inr (path3, max_depth)
           \<and> 0 \<le> max_depth \<and> nat max_depth < len
           \<and> mset (map path3 [0..<len]) = mset [0..<len]
           \<and> distinct (map path3 [0..<nat max_depth + 1])
           \<and> (\<forall>k<nat max_depth. E ! path3 k ! path3 (k + 1) \<noteq> 0)
           \<and> map path3 [nat max_depth + 1..<len] =
               filter (\<lambda>v. v \<notin> path3 ` {0..<nat max_depth + 1}) [0..<len]"
    unfolding nd img using run md dlen perm dist3 ch tail by (intro conjI) simp_all
  then show ?thesis by blast
qed

text \<open>
  C5. For at least one table and an edge matrix with one row per table, the planner
  returns (its \<^verbatim>\<open>assert\<close> holds); \<^verbatim>\<open>path[0..len)\<close> is a permutation of \<open>[0, len)\<close>; its
  first \<open>max_depth + 1\<close> entries are distinct and each is joined to the next by an edge
  of \<open>E\<close>; and the entries after them are the vertices that are not among them, in
  ascending order.
\<close>

theorem plan_is_permutation:
  assumes "0 < len" and "length E = len"
  shows "\<exists>path max_depth.
           iterate_many_tables_plan E len path0 uninit = Inr (path, max_depth)
           \<and> 0 \<le> max_depth \<and> nat max_depth < len
           \<and> mset (map path [0..<len]) = mset [0..<len]
           \<and> distinct (map path [0..<nat max_depth + 1])
           \<and> (\<forall>k<nat max_depth. E ! path k ! path (k + 1) \<noteq> 0)
           \<and> map path [nat max_depth + 1..<len] =
               filter (\<lambda>v. v \<notin> path ` {0..<nat max_depth + 1}) [0..<len]"
  using assms by (rule plan_permutation)

text \<open>
  Three tables with the single edge \<open>E[1][2]\<close>: the chain is \<open>1, 2\<close> and the table \<open>0\<close> is
  appended.
\<close>

theorem plan_is_permutation_witness:
  "(0::nat) < 3 \<and> length [[0, 0, 0], [0, 0, 1], [0, 0, 0::int]] = 3
   \<and> map_sum id (\<lambda>(path, max_depth). (map path [0..<3], max_depth))
        (iterate_many_tables_plan [[0, 0, 0], [0, 0, 1], [0, 0, 0]] 3 (\<lambda>_. 0) 0)
      = Inr ([1, 2, 0], 1)"
proof -
  let ?E = "[[0, 0, 0], [0, 0, 1], [0, 0, 0::int]]"
  have l: "(0::nat) < 3" "length ?E = 3" by simp_all
  from plan_is_permutation[OF l, of "\<lambda>_. 0" 0] obtain path max_depth where
    p: "iterate_many_tables_plan ?E 3 (\<lambda>_. 0) 0 = Inr (path, max_depth)"
    by blast
  have "map_sum id (\<lambda>(path, max_depth). (map path [0..<3], max_depth))
        (iterate_many_tables_plan ?E 3 (\<lambda>_. 0) 0) = Inr ([1, 2, 0], 1)"
    by (simp add: iterate_many_tables_plan_def plan_try_start_def plan_append_def Let_def
        upt_rec[of _ "3"] upt_rec[of _ "numeral n" for n] numeral_3_eq_3 nat_numeral)
  with l p show ?thesis by simp
qed

end
